theory Spec2Isabelle
  imports Complex_Main "HOL-Library.Signed_Division" "HOL-Library.Log_Nat"
begin

section \<open>JavaScript values and number operations\<close>

text \<open>
  The values that flow through \<^verbatim>\<open>src/computeRgp.js\<close>: numbers, \<^verbatim>\<open>null\<close> and
  \<^verbatim>\<open>undefined\<close>. A finite number is an IEEE 754 binary64 value, written \<open>Num r\<close> with \<open>r\<close>
  the rational it denotes; the three non-finite numbers are values of their own. The two
  zeros are one value \<open>Num 0\<close>: their sign shows only in a division by zero, and every
  divisor of this program is either checked to be positive or the literal 100.
\<close>

datatype jsval = Undefined | Null | NaN | NegInf | PosInf | Num rat

subsection \<open>Rounding to binary64\<close>

text \<open>
  The binary exponent of a non-zero rational: the \<open>e\<close> with
  \<open>2 powi e \<le> \<bar>x\<bar> < 2 powi (e + 1)\<close>, found
  from the bit lengths of numerator and denominator.
\<close>

definition expo :: "rat \<Rightarrow> int" where
  "expo x =
     (case quotient_of \<bar>x\<bar> of (p, q) \<Rightarrow>
        let e = bitlen p - bitlen q in if 2 powi e \<le> \<bar>x\<bar> then e else e - 1)"

text \<open>Rounding to the nearest integer, a tie to the even one.\<close>

definition rne :: "rat \<Rightarrow> int" where
  "rne t =
     (let f = \<lfloor>t\<rfloor>; r = t - of_int f
      in if r < 1 / 2 then f else if 1 / 2 < r then f + 1 else if even f then f else f + 1)"

text \<open>
  The spacing of the binary64 values around \<open>x\<close>: 53 significant bits at the exponent of
  \<open>x\<close>, and the fixed spacing \<open>2 powi - 1074\<close> of the subnormal range below
  \<open>2 powi - 1022\<close>.
\<close>

definition quantum :: "rat \<Rightarrow> rat" where
  "quantum x = 2 powi (max (expo x) (- 1022) - 52)"

text \<open>The magnitude of \<open>x\<close> rounded to a multiple of that spacing.\<close>

definition round_mag :: "rat \<Rightarrow> rat" where
  "round_mag x = of_int (rne (\<bar>x\<bar> / quantum x)) * quantum x"

text \<open>A rounded magnitude of \<open>2 powi 1024\<close> or more is an infinity.\<close>

definition overflow_bound :: rat where
  "overflow_bound = 2 powi 1024"

text \<open>
  The Number value for a rational: the nearest binary64 value, a tie to the even
  significand, an infinity on overflow, zero on underflow.
\<close>

definition to_double :: "rat \<Rightarrow> jsval" where
  "to_double x =
     (if x = 0 then Num 0
      else if overflow_bound \<le> round_mag x then (if 0 < x then PosInf else NegInf)
      else Num (sgn x * round_mag x))"

subsection \<open>The operators\<close>

text \<open>ToNumber of the language: \<^verbatim>\<open>undefined\<close> is NaN, \<^verbatim>\<open>null\<close> is 0.\<close>

fun ToNumber :: "jsval \<Rightarrow> jsval" where
  "ToNumber Undefined = NaN"
| "ToNumber Null = Num 0"
| "ToNumber v = v"

text \<open>
  The operations on numbers (the operands are results of \<open>ToNumber\<close>). On two finite
  numbers the result is the exact result rounded by \<open>to_double\<close>.
\<close>

fun num_neg :: "jsval \<Rightarrow> jsval" where
  "num_neg (Num a) = Num (- a)"
| "num_neg PosInf = NegInf"
| "num_neg NegInf = PosInf"
| "num_neg v = NaN"

fun num_add :: "jsval \<Rightarrow> jsval \<Rightarrow> jsval" where
  "num_add (Num a) (Num b) = to_double (a + b)"
| "num_add (Num a) PosInf = PosInf"
| "num_add (Num a) NegInf = NegInf"
| "num_add PosInf (Num b) = PosInf"
| "num_add NegInf (Num b) = NegInf"
| "num_add PosInf PosInf = PosInf"
| "num_add NegInf NegInf = NegInf"
| "num_add v w = NaN"

fun num_mul :: "jsval \<Rightarrow> jsval \<Rightarrow> jsval" where
  "num_mul (Num a) (Num b) = to_double (a * b)"
| "num_mul (Num a) PosInf = (if a = 0 then NaN else if 0 < a then PosInf else NegInf)"
| "num_mul (Num a) NegInf = (if a = 0 then NaN else if 0 < a then NegInf else PosInf)"
| "num_mul PosInf (Num b) = (if b = 0 then NaN else if 0 < b then PosInf else NegInf)"
| "num_mul NegInf (Num b) = (if b = 0 then NaN else if 0 < b then NegInf else PosInf)"
| "num_mul PosInf PosInf = PosInf"
| "num_mul NegInf NegInf = PosInf"
| "num_mul PosInf NegInf = NegInf"
| "num_mul NegInf PosInf = NegInf"
| "num_mul v w = NaN"

fun num_div :: "jsval \<Rightarrow> jsval \<Rightarrow> jsval" where
  "num_div (Num a) (Num b) =
     (if b = 0 then (if a = 0 then NaN else if 0 < a then PosInf else NegInf)
      else to_double (a / b))"
| "num_div (Num a) PosInf = Num 0"
| "num_div (Num a) NegInf = Num 0"
| "num_div PosInf (Num b) = (if 0 \<le> b then PosInf else NegInf)"
| "num_div NegInf (Num b) = (if 0 \<le> b then NegInf else PosInf)"
| "num_div v w = NaN"

fun num_lt :: "jsval \<Rightarrow> jsval \<Rightarrow> bool" where
  "num_lt (Num a) (Num b) = (a < b)"
| "num_lt (Num a) PosInf = True"
| "num_lt NegInf (Num b) = True"
| "num_lt NegInf PosInf = True"
| "num_lt v w = False"

fun num_le :: "jsval \<Rightarrow> jsval \<Rightarrow> bool" where
  "num_le (Num a) (Num b) = (a \<le> b)"
| "num_le (Num a) PosInf = True"
| "num_le NegInf (Num b) = True"
| "num_le NegInf PosInf = True"
| "num_le NegInf NegInf = True"
| "num_le PosInf PosInf = True"
| "num_le v w = False"

text \<open>
  The operators of the language on values: both operands go through \<open>ToNumber\<close> (no
  operand of this program is a string, so \<^verbatim>\<open>+\<close> never concatenates).
\<close>

definition js_neg :: "jsval \<Rightarrow> jsval" where
  "js_neg a = num_neg (ToNumber a)"

definition js_add :: "jsval \<Rightarrow> jsval \<Rightarrow> jsval" where
  "js_add a b = num_add (ToNumber a) (ToNumber b)"

definition js_sub :: "jsval \<Rightarrow> jsval \<Rightarrow> jsval" where
  "js_sub a b = num_add (ToNumber a) (num_neg (ToNumber b))"

definition js_mul :: "jsval \<Rightarrow> jsval \<Rightarrow> jsval" where
  "js_mul a b = num_mul (ToNumber a) (ToNumber b)"

definition js_div :: "jsval \<Rightarrow> jsval \<Rightarrow> jsval" where
  "js_div a b = num_div (ToNumber a) (ToNumber b)"

definition js_lt :: "jsval \<Rightarrow> jsval \<Rightarrow> bool" where
  "js_lt a b = num_lt (ToNumber a) (ToNumber b)"

definition js_gt :: "jsval \<Rightarrow> jsval \<Rightarrow> bool" where
  "js_gt a b = num_lt (ToNumber b) (ToNumber a)"

definition js_le :: "jsval \<Rightarrow> jsval \<Rightarrow> bool" where
  "js_le a b = num_le (ToNumber a) (ToNumber b)"

text \<open>\<^verbatim>\<open>a === b\<close> on these values: the same value, and NaN equals nothing.\<close>

definition strict_eq :: "jsval \<Rightarrow> jsval \<Rightarrow> bool" where
  "strict_eq a b = (a = b \<and> a \<noteq> NaN)"

text \<open>\<^verbatim>\<open>a == null\<close>: true of \<^verbatim>\<open>null\<close> and \<^verbatim>\<open>undefined\<close> only.\<close>

definition loose_eq_null :: "jsval \<Rightarrow> bool" where
  "loose_eq_null a = (a = Null \<or> a = Undefined)"

text \<open>\<^verbatim>\<open>a ?? b\<close>\<close>

definition nullish :: "jsval \<Rightarrow> jsval \<Rightarrow> jsval" where
  "nullish a b = (if a = Null \<or> a = Undefined then b else a)"

fun Number_isFinite :: "jsval \<Rightarrow> bool" where
  "Number_isFinite (Num a) = True"
| "Number_isFinite v = False"

text \<open>
  \<^verbatim>\<open>Math.floor\<close>, \<^verbatim>\<open>Math.ceil\<close> and \<^verbatim>\<open>Math.round\<close> are exact: a binary64 value of
  magnitude \<open>2 ^ 52\<close> or more is an integer already, and the integers below are binary64
  values.
\<close>

fun num_floor :: "jsval \<Rightarrow> jsval" where
  "num_floor (Num a) = Num (of_int \<lfloor>a\<rfloor>)"
| "num_floor v = v"

fun num_ceil :: "jsval \<Rightarrow> jsval" where
  "num_ceil (Num a) = Num (of_int \<lceil>a\<rceil>)"
| "num_ceil v = v"

text \<open>\<^verbatim>\<open>Math.round\<close> rounds to the nearest integer, a tie towards \<open>+\<infinity>\<close>.\<close>

fun num_round :: "jsval \<Rightarrow> jsval" where
  "num_round (Num a) = Num (of_int \<lfloor>a + 1 / 2\<rfloor>)"
| "num_round v = v"

definition Math_floor :: "jsval \<Rightarrow> jsval" where
  "Math_floor a = num_floor (ToNumber a)"

definition Math_ceil :: "jsval \<Rightarrow> jsval" where
  "Math_ceil a = num_ceil (ToNumber a)"

definition Math_round :: "jsval \<Rightarrow> jsval" where
  "Math_round a = num_round (ToNumber a)"

definition Math_max :: "jsval \<Rightarrow> jsval \<Rightarrow> jsval" where
  "Math_max a b =
     (let x = ToNumber a; y = ToNumber b
      in if x = NaN \<or> y = NaN then NaN else if num_lt x y then y else x)"

definition Math_min :: "jsval \<Rightarrow> jsval \<Rightarrow> jsval" where
  "Math_min a b =
     (let x = ToNumber a; y = ToNumber b
      in if x = NaN \<or> y = NaN then NaN else if num_lt y x then y else x)"

text \<open>A number that is not NaN.\<close>

fun is_num :: "jsval \<Rightarrow> bool" where
  "is_num (Num a) = True"
| "is_num PosInf = True"
| "is_num NegInf = True"
| "is_num v = False"

section \<open>The pricing algorithm: \<^verbatim>\<open>src/computeRgp.js\<close>\<close>

text \<open>
  \<^verbatim>\<open>roundToStep(x, step = 10)\<close>: the default applies when the argument is
  \<^verbatim>\<open>undefined\<close>.
\<close>

definition roundToStep :: "jsval \<Rightarrow> jsval \<Rightarrow> jsval" where
  "roundToStep x step0 =
     (let step = (if step0 = Undefined then Num 10 else step0)
      in if \<not> Number_isFinite x \<or> js_le step (Num 0) then x
         else js_mul (Math_round (js_div x step)) step)"

definition clamp :: "jsval \<Rightarrow> jsval \<Rightarrow> jsval \<Rightarrow> jsval" where
  "clamp x lo hi =
     (if lo \<noteq> Undefined \<and> js_lt x lo then lo
      else if hi \<noteq> Undefined \<and> js_gt x hi then hi
      else x)"

text \<open>
  \<^verbatim>\<open>randInt(a, b) = Math.floor(Math.random() * (b - a + 1)) + a\<close>. The value \<open>u\<close> of
  \<^verbatim>\<open>Math.random()\<close>, a number with \<open>0 \<le> u < 1\<close>, is a parameter.
\<close>

definition randInt :: "rat \<Rightarrow> jsval \<Rightarrow> jsval \<Rightarrow> jsval" where
  "randInt u a b = js_add (Math_floor (js_mul (Num u) (js_add (js_sub b a) (Num 1)))) a"

text \<open>\<^verbatim>\<open>chooseJitter\<close> draws once, in whichever branch it takes.\<close>

definition chooseJitter :: "rat \<Rightarrow> jsval \<Rightarrow> jsval \<Rightarrow> jsval \<Rightarrow> jsval \<Rightarrow> jsval \<Rightarrow> jsval" where
  "chooseJitter u R_clamped clampMin clampMax baseLow baseHigh =
     (if loose_eq_null clampMin \<or> loose_eq_null clampMax then
        randInt u (js_neg baseLow) (ToNumber baseHigh)
      else if Number_isFinite clampMin \<and> strict_eq R_clamped clampMin then
        randInt u (Num 0) (ToNumber baseHigh)
      else if Number_isFinite clampMax \<and> strict_eq R_clamped clampMax then
        randInt u (js_neg baseLow) (Num 0)
      else
        let lowRoom = Math_ceil (js_sub clampMin R_clamped);
            highRoom = Math_floor (js_sub clampMax R_clamped);
            lo = Math_max (js_neg baseLow) lowRoom;
            hi = Math_min (ToNumber baseHigh) highRoom
        in if js_gt lo hi then Num 0 else randInt u lo hi)"

text \<open>
  The \<^verbatim>\<open>options\<close> object. \<open>guardRailsEnabled\<close> is its truthiness; an absent
  \<^verbatim>\<open>guardRailsPct\<close> or \<^verbatim>\<open>jitterRange\<close> is \<open>None\<close>, a present one gives its
  first two entries (\<open>Undefined\<close> for an entry the array does not have); an absent
  \<^verbatim>\<open>roundStep\<close>, \<^verbatim>\<open>minRgpMist\<close> or \<^verbatim>\<open>maxRgpMist\<close> is \<open>Undefined\<close>.
\<close>

record options =
  guardRailsEnabled :: bool
  guardRailsPct :: "(jsval \<times> jsval) option"
  roundStep :: jsval
  minRgpMist :: jsval
  maxRgpMist :: jsval
  jitterRange :: "(jsval \<times> jsval) option"

datatype error =
    InvalidTargetAvgTxUsd
  | InvalidAvgCompShare
  | InvalidCompCostUsd
  | InvalidCurrentRgp
  | BigIntRangeError
  | MissingEpochNodes
  | NoUsableEpochs
  | NullOverallTypeError

record rgp_inputs =
  in_targetAvgTxUsd :: jsval
  in_compShare :: jsval
  in_compCostUsd :: jsval
  in_currentRgp :: jsval
  in_guardRailsEnabled :: bool
  in_guardRailsPct :: "jsval \<times> jsval"
  in_roundStep :: jsval
  in_minRgpMist :: jsval
  in_maxRgpMist :: jsval
  in_jitterRange :: "jsval \<times> jsval"

record rgp_calc =
  calc_C_target :: jsval
  calc_k :: jsval
  calc_R_raw :: jsval
  calc_clampMin :: jsval
  calc_clampMax :: jsval
  calc_R_clamped :: jsval
  calc_jitter :: jsval
  calc_R_final :: jsval

record rgp_result =
  inputs :: rgp_inputs
  calc :: rgp_calc
  proposedRgpMist :: jsval

text \<open>\<^verbatim>\<open>guardRailsPct?.[0] ?? -20\<close> and \<^verbatim>\<open>guardRailsPct?.[1] ?? 40\<close>.\<close>

definition lowPct_of :: "options \<Rightarrow> jsval" where
  "lowPct_of opts =
     nullish (case guardRailsPct opts of None \<Rightarrow> Undefined | Some p \<Rightarrow> fst p) (Num (- 20))"

definition highPct_of :: "options \<Rightarrow> jsval" where
  "highPct_of opts =
     nullish (case guardRailsPct opts of None \<Rightarrow> Undefined | Some p \<Rightarrow> snd p) (Num 40)"

definition computeNewRgpFromInputs ::
  "rat \<Rightarrow> jsval \<Rightarrow> jsval \<Rightarrow> jsval \<Rightarrow> jsval \<Rightarrow> options \<Rightarrow> error + rgp_result" where
  "computeNewRgpFromInputs u targetAvgTxUsd compShare compCostUsd currentRgp opts =
     (if \<not> Number_isFinite targetAvgTxUsd \<or> js_le targetAvgTxUsd (Num 0) then
        Inl InvalidTargetAvgTxUsd
      else if \<not> Number_isFinite compShare \<or> js_le compShare (Num 0) \<or> js_gt compShare (Num 1) then
        Inl InvalidAvgCompShare
      else if \<not> Number_isFinite compCostUsd \<or> js_le compCostUsd (Num 0) then
        Inl InvalidCompCostUsd
      else if \<not> Number_isFinite currentRgp \<or> js_le currentRgp (Num 0) then
        Inl InvalidCurrentRgp
      else
        let C_target = js_mul compShare targetAvgTxUsd;
            k = js_div C_target compCostUsd;
            R_raw = js_mul currentRgp k;
            clampMin =
              (if guardRailsEnabled opts
               then js_mul currentRgp (js_add (Num 1) (js_div (lowPct_of opts) (Num 100)))
               else Null);
            clampMax =
              (if guardRailsEnabled opts
               then js_mul currentRgp (js_add (Num 1) (js_div (highPct_of opts) (Num 100)))
               else Null);
            R_clamped = clamp R_raw clampMin clampMax;
            baseLow = (case jitterRange opts of None \<Rightarrow> Num 5 | Some p \<Rightarrow> fst p);
            baseHigh = (case jitterRange opts of None \<Rightarrow> Num 5 | Some p \<Rightarrow> snd p);
            drawn = chooseJitter u R_clamped clampMin clampMax baseLow baseHigh;
            R_afterJitter = js_add R_clamped drawn;
            R_rounded = roundToStep R_afterJitter (roundStep opts);
            R_min =
              (if Number_isFinite (minRgpMist opts) then Math_max R_rounded (minRgpMist opts)
               else R_rounded);
            R_max =
              (if Number_isFinite (maxRgpMist opts) then Math_min R_min (maxRgpMist opts)
               else R_min);
            R_final = Math_max (Num 1) (Math_round R_max)
        in Inr \<lparr>
             inputs = \<lparr>
               in_targetAvgTxUsd = targetAvgTxUsd,
               in_compShare = compShare,
               in_compCostUsd = compCostUsd,
               in_currentRgp = currentRgp,
               in_guardRailsEnabled = guardRailsEnabled opts,
               in_guardRailsPct =
                 (case guardRailsPct opts of None \<Rightarrow> (Num (- 20), Num 40) | Some p \<Rightarrow> p),
               in_roundStep =
                 (if Number_isFinite (roundStep opts) \<and> js_gt (roundStep opts) (Num 0)
                  then roundStep opts else Num 10),
               in_minRgpMist =
                 (if Number_isFinite (minRgpMist opts) then minRgpMist opts else Null),
               in_maxRgpMist =
                 (if Number_isFinite (maxRgpMist opts) then maxRgpMist opts else Null),
               in_jitterRange = (baseLow, baseHigh) \<rparr>,
             calc = \<lparr>
               calc_C_target = C_target,
               calc_k = k,
               calc_R_raw = R_raw,
               calc_clampMin = clampMin,
               calc_clampMax = clampMax,
               calc_R_clamped = R_clamped,
               calc_jitter = drawn,
               calc_R_final = R_final \<rparr>,
             proposedRgpMist = R_final \<rparr>)"

section \<open>The epoch metrics: \<^verbatim>\<open>src/metrics.js\<close>\<close>

text \<open>
  A BigInt is an \<open>int\<close>. BigInt division \<^verbatim>\<open>/\<close> truncates towards zero and the
  remainder \<^verbatim>\<open>%\<close> takes the sign of the dividend (\<open>sdiv\<close> and \<open>smod\<close>); both throw a
  RangeError on the divisor \<^verbatim>\<open>0n\<close>. An exception is the \<open>Inl\<close> of a result, and
  \<open>bind_err\<close> passes it on.
\<close>

definition bind_err :: "error + 'a \<Rightarrow> ('a \<Rightarrow> error + 'b) \<Rightarrow> error + 'b" where
  "bind_err x f = (case x of Inl e \<Rightarrow> Inl e | Inr v \<Rightarrow> f v)"

definition BigInt_div :: "int \<Rightarrow> int \<Rightarrow> error + int" where
  "BigInt_div a b = (if b = 0 then Inl BigIntRangeError else Inr (a sdiv b))"

definition BigInt_mod :: "int \<Rightarrow> int \<Rightarrow> error + int" where
  "BigInt_mod a b = (if b = 0 then Inl BigIntRangeError else Inr (a smod b))"

text \<open>\<^verbatim>\<open>BigInt.prototype.toString()\<close>: the decimal digits, \<^verbatim>\<open>-\<close> first when negative.\<close>

definition digit_char :: "nat \<Rightarrow> char" where
  "digit_char n = char_of (48 + n)"

fun showNat :: "nat \<Rightarrow> string" where
  "showNat n = (if n < 10 then [digit_char n] else showNat (n div 10) @ [digit_char (n mod 10)])"

declare showNat.simps [simp del]

definition BigInt_toString :: "int \<Rightarrow> string" where
  "BigInt_toString i = (if i < 0 then CHR ''-'' # showNat (nat (- i)) else showNat (nat i))"

text \<open>\<^verbatim>\<open>s.padStart(n, c)\<close> for a one-character pad.\<close>

definition padStart :: "nat \<Rightarrow> char \<Rightarrow> string \<Rightarrow> string" where
  "padStart n c s = replicate (n - length s) c @ s"

definition MIST_PER_SUI :: int where
  "MIST_PER_SUI = 1000000000"

text \<open>
  \<^verbatim>\<open>neg\<close> is \<^verbatim>\<open>(numer < 0n) ^ (denom < 0n)\<close>: truthy when exactly one of the two is
  negative. \<open>decimals\<close> is a natural number (\<^verbatim>\<open>BigInt(decimals)\<close> and the power throw on
  anything else).
\<close>

definition divBigIntToDecimalString :: "int \<Rightarrow> int \<Rightarrow> nat \<Rightarrow> error + string" where
  "divBigIntToDecimalString numer denom decimals =
     (if denom = 0 then Inr ''NaN''
      else
        let neg = ((numer < 0) \<noteq> (denom < 0));
            numer1 = (if numer < 0 then - numer else numer);
            denom1 = (if denom < 0 then - denom else denom);
            scale = 10 ^ decimals
        in bind_err (BigInt_div (numer1 * scale) denom1) (\<lambda>q.
           bind_err (BigInt_div q scale) (\<lambda>intPart.
           bind_err (BigInt_mod q scale) (\<lambda>fracPart.
             Inr ((if neg then ''-'' else []) @ BigInt_toString intPart @ ''.'' @
                  padStart decimals (CHR ''0'') (BigInt_toString fracPart))))))"

definition mistToSuiString :: "int \<Rightarrow> nat \<Rightarrow> error + string" where
  "mistToSuiString mist decimals = divBigIntToDecimalString mist MIST_PER_SUI decimals"

text \<open>A \<^verbatim>\<open>null\<close> argument is \<open>None\<close>.\<close>

definition percentFromBigInt :: "int option \<Rightarrow> int option \<Rightarrow> nat \<Rightarrow> error + string" where
  "percentFromBigInt numer denom decimals =
     (case denom of
        None \<Rightarrow> Inr ''N/A''
      | Some d \<Rightarrow>
          if d = 0 then Inr ''N/A''
          else (case numer of
                  None \<Rightarrow> Inr ''N/A''
                | Some n \<Rightarrow>
                    bind_err (divBigIntToDecimalString (n * 100) d decimals) (\<lambda>s.
                      Inr (s @ ''%''))))"

text \<open>
  A raw epoch record, after the conversions of the language that \<^verbatim>\<open>extractEpoch\<close>
  applies to its fields:
  \<^item> a cost field and \<open>totalStakeRewards\<close> hold the result of \<^verbatim>\<open>toBigIntOrNull\<close>
    (\<^verbatim>\<open>BigInt(String(v))\<close>): \<open>None\<close> when the field is absent or is not the text of an
    integer;
  \<^item> \<open>totalTransactions\<close> holds the field as a number, or \<open>Null\<close>/\<open>Undefined\<close> when absent;
  \<^item> \<open>startDate\<close> and \<open>endDate\<close> hold the result of \<^verbatim>\<open>isoDateOnly\<close>;
  \<^item> \<open>checkpoints\<close> is \<^verbatim>\<open>checkpoints.nodes\<close> (empty when absent), each entry its
    \<^verbatim>\<open>rollingGasSummary\<close>, \<open>None\<close> when the entry has none.
\<close>

record gas_summary =
  computationCost :: "int option"
  storageCost :: "int option"
  storageRebate :: "int option"

record epoch_node =
  epochId :: jsval
  totalTransactions :: jsval
  totalStakeRewards :: "int option"
  startDate :: "string option"
  endDate :: "string option"
  checkpoints :: "gas_summary option list"

record epoch_metric =
  m_epochId :: jsval
  m_startDate :: "string option"
  m_endDate :: "string option"
  m_txCount :: jsval
  m_totalGasFee :: int
  m_comp :: int
  m_avgTotalPerTx :: int
  m_avgCompPerTx :: int
  m_compSharePct :: string
  m_gasOverRewardsPct :: string

text \<open>\<^verbatim>\<open>BigInt(x)\<close> of a number: the integer it is, a RangeError otherwise.\<close>

definition BigInt_of_Number :: "jsval \<Rightarrow> error + int" where
  "BigInt_of_Number v =
     (case v of
        Num a \<Rightarrow> (if of_int \<lfloor>a\<rfloor> = a then Inr \<lfloor>a\<rfloor> else Inl BigIntRangeError)
      | _ \<Rightarrow> Inl BigIntRangeError)"

text \<open>
  \<^verbatim>\<open>extractEpoch\<close> returns \<open>Inr None\<close> where the code returns \<^verbatim>\<open>null\<close> (the record is
  skipped) and \<open>Inl\<close> where it throws. \<^verbatim>\<open>BigInt(txCount)\<close> is evaluated once for each of
  the two averages.
\<close>

definition extractEpoch :: "epoch_node \<Rightarrow> error + epoch_metric option" where
  "extractEpoch node =
     (case checkpoints node of
        [] \<Rightarrow> Inr None
      | None # _ \<Rightarrow> Inr None
      | Some r # _ \<Rightarrow>
          let txCount = ToNumber (nullish (totalTransactions node) (Num 0));
              stakeRewards = totalStakeRewards node
          in (case (computationCost r, storageCost r, storageRebate r) of
                (Some comp', Some stor, Some rebate) \<Rightarrow>
                  if \<not> Number_isFinite txCount \<or> js_le txCount (Num 0) then Inr None
                  else
                    let totalGasFee = comp' + stor - rebate
                    in bind_err (BigInt_of_Number txCount) (\<lambda>n1.
                       bind_err (BigInt_div totalGasFee n1) (\<lambda>avgTotalPerTx.
                       bind_err (BigInt_of_Number txCount) (\<lambda>n2.
                       bind_err (BigInt_div comp' n2) (\<lambda>avgCompPerTx.
                       bind_err
                         (if 0 < totalGasFee
                          then percentFromBigInt (Some comp') (Some totalGasFee) 2
                          else Inr ''N/A'') (\<lambda>compSharePct.
                       bind_err
                         (case stakeRewards of
                            None \<Rightarrow> Inr ''N/A''
                          | Some sr \<Rightarrow>
                              if sr \<noteq> 0 \<and> 0 < sr
                              then percentFromBigInt (Some totalGasFee) (Some sr) 2
                              else Inr ''N/A'') (\<lambda>gasOverRewardsPct.
                         Inr (Some \<lparr>
                           m_epochId = epochId node,
                           m_startDate = startDate node,
                           m_endDate = endDate node,
                           m_txCount = txCount,
                           m_totalGasFee = totalGasFee,
                           m_comp = comp',
                           m_avgTotalPerTx = avgTotalPerTx,
                           m_avgCompPerTx = avgCompPerTx,
                           m_compSharePct = compSharePct,
                           m_gasOverRewardsPct = gasOverRewardsPct \<rparr>)))))))
              | _ \<Rightarrow> Inr None))"

text \<open>
  The overall summary. Its fee-unit fields are modelled; the fields averaged over
  floating-point USD prices and over re-parsed percentage strings are left out.
\<close>

record overall_summary =
  epochsIncluded :: nat
  avgTotalTransactions :: jsval
  avgTotalGasPerEpoch_SUI :: string
  avgComputationPerEpoch_SUI :: string
  avgTotalCostPerTx_SUI :: string
  avgComputationCostPerTx_SUI :: string

text \<open>\<^verbatim>\<open>rows.filter(Boolean)\<close> drops the \<^verbatim>\<open>null\<close> rows.\<close>

definition summarize ::
  "epoch_metric option list \<Rightarrow> error + epoch_metric list \<times> overall_summary option" where
  "summarize rows =
     (let r = List.map_filter (\<lambda>x. x) rows
      in if r = [] then Inr (r, None)
         else
           let len = int (length r);
               avgTx = Math_round
                 (js_div (foldl (\<lambda>s x. js_add s (m_txCount x)) (Num 0) r) (Num (of_int len)))
           in bind_err (BigInt_div (foldl (\<lambda>s x. s + m_totalGasFee x) 0 r) len)
                (\<lambda>avgTotalGasPerEpoch.
              bind_err (BigInt_div (foldl (\<lambda>s x. s + m_comp x) 0 r) len)
                (\<lambda>avgCompPerEpoch.
              bind_err (BigInt_div (foldl (\<lambda>s x. s + m_avgTotalPerTx x) 0 r) len)
                (\<lambda>avgTotalPerTxSimple.
              bind_err (BigInt_div (foldl (\<lambda>s x. s + m_avgCompPerTx x) 0 r) len)
                (\<lambda>avgCompPerTxSimple.
              bind_err (mistToSuiString avgTotalGasPerEpoch 6) (\<lambda>s1.
              bind_err (mistToSuiString avgCompPerEpoch 6) (\<lambda>s2.
              bind_err (mistToSuiString avgTotalPerTxSimple 9) (\<lambda>s3.
              bind_err (mistToSuiString avgCompPerTxSimple 9) (\<lambda>s4.
                Inr (r, Some \<lparr>
                  epochsIncluded = length r,
                  avgTotalTransactions = avgTx,
                  avgTotalGasPerEpoch_SUI = s1,
                  avgComputationPerEpoch_SUI = s2,
                  avgTotalCostPerTx_SUI = s3,
                  avgComputationCostPerTx_SUI = s4 \<rparr>))))))))))"

text \<open>\<^verbatim>\<open>nodes.map(extractEpoch)\<close>: the first exception ends the map.\<close>

fun extractAll :: "epoch_node list \<Rightarrow> error + epoch_metric option list" where
  "extractAll [] = Inr []"
| "extractAll (n # ns) =
     bind_err (extractEpoch n) (\<lambda>m. bind_err (extractAll ns) (\<lambda>ms. Inr (m # ms)))"

text \<open>
  \<^verbatim>\<open>collectMetrics\<close> from the GraphQL response on: \<open>None\<close> is a response without an
  \<^verbatim>\<open>epochs.nodes\<close> array. The payload keeps the usable epochs and the overall summary;
  the price map, the display table and the latest reference gas price are left out. With
  a \<^verbatim>\<open>null\<close> overall summary the code would throw a TypeError on \<^verbatim>\<open>overall._num\<close>.
\<close>

record metrics_payload =
  perEpoch :: "epoch_metric list"
  overall :: overall_summary

definition collectMetrics :: "epoch_node list option \<Rightarrow> error + metrics_payload" where
  "collectMetrics nodes =
     (case nodes of
        None \<Rightarrow> Inl MissingEpochNodes
      | Some ns \<Rightarrow>
          bind_err (extractAll ns) (\<lambda>ms.
            let extracted = List.map_filter (\<lambda>x. x) ms
            in if extracted = [] then Inl NoUsableEpochs
               else bind_err (summarize (map Some extracted)) (\<lambda>(rows, ov).
                      case ov of
                        None \<Rightarrow> Inl NullOverallTypeError
                      | Some o1 \<Rightarrow> Inr \<lparr> perEpoch = extracted, overall = o1 \<rparr>)))"

text \<open>Reading a decimal numeral back: the digits of a string and their value.\<close>

definition is_digit :: "char \<Rightarrow> bool" where
  "is_digit c = (48 \<le> (of_char c :: nat) \<and> (of_char c :: nat) \<le> 57)"

definition digit_val :: "char \<Rightarrow> nat" where
  "digit_val c = of_char c - 48"

definition decimal_nat :: "string \<Rightarrow> nat" where
  "decimal_nat s = foldl (\<lambda>a c. 10 * a + digit_val c) 0 s"

text \<open>
  Example records: an epoch whose storage rebate exceeds its computation and storage
  costs, an ordinary epoch (both with two transactions), and a record without
  checkpoints.
\<close>

definition rebate_heavy_summary :: gas_summary where
  "rebate_heavy_summary =
     \<lparr> computationCost = Some 1000000, storageCost = Some 2000000,
       storageRebate = Some 5000001 \<rparr>"

definition rebate_heavy_node :: epoch_node where
  "rebate_heavy_node =
     \<lparr> epochId = Num 900,
       totalTransactions = Num 2,
       totalStakeRewards = Some 1000,
       startDate = Some ''2025-01-01'',
       endDate = Some ''2025-01-02'',
       checkpoints = [Some rebate_heavy_summary] \<rparr>"

definition ordinary_summary :: gas_summary where
  "ordinary_summary =
     \<lparr> computationCost = Some 1000000, storageCost = Some 2000000,
       storageRebate = Some 500001 \<rparr>"

definition ordinary_node :: epoch_node where
  "ordinary_node = rebate_heavy_node \<lparr> checkpoints := [Some ordinary_summary] \<rparr>"

definition empty_node :: epoch_node where
  "empty_node =
     \<lparr> epochId = Num 901,
       totalTransactions = Num 2,
       totalStakeRewards = None,
       startDate = None,
       endDate = None,
       checkpoints = [] \<rparr>"

section \<open>Predicates of the specification\<close>

text \<open>A required input in its domain: a finite number greater than zero.\<close>

definition positive_finite :: "jsval \<Rightarrow> bool" where
  "positive_finite v = (case v of Num a \<Rightarrow> 0 < a | _ \<Rightarrow> False)"

text \<open>The computation share in its domain: a finite number in \<open>(0, 1]\<close>.\<close>

definition share_in_range :: "jsval \<Rightarrow> bool" where
  "share_in_range v = (case v of Num a \<Rightarrow> 0 < a \<and> a \<le> 1 | _ \<Rightarrow> False)"

text \<open>
  The configuration of the specification's scenario: guard rails \<open>[-40, 40]\<close> per cent,
  rounding step 1, no absolute bounds, jitter magnitudes \<open>[5, 5]\<close>.
\<close>

definition scenario_options :: options where
  "scenario_options =
     \<lparr> guardRailsEnabled = True,
       guardRailsPct = Some (Num (- 40), Num 40),
       roundStep = Num 1,
       minRgpMist = Undefined,
       maxRgpMist = Undefined,
       jitterRange = Some (Num 5, Num 5) \<rparr>"

text \<open>
  A configuration whose numbers are finite: the guard-rail percentages in use, the rounding
  step when one is given, and the jitter magnitudes. (The absolute bounds need no
  condition: the code skips a bound that is not a finite number.)
\<close>

definition finite_config :: "options \<Rightarrow> bool" where
  "finite_config opts =
     ((guardRailsEnabled opts \<longrightarrow>
         Number_isFinite (lowPct_of opts) \<and> Number_isFinite (highPct_of opts)) \<and>
      (roundStep opts = Undefined \<or> Number_isFinite (roundStep opts)) \<and>
      (case jitterRange opts of None \<Rightarrow> True
       | Some p \<Rightarrow> Number_isFinite (fst p) \<and> Number_isFinite (snd p)))"

text \<open>
  The required inputs of the specification's scenario, \<open>T = 0.004\<close>, \<open>s = 0.6\<close>,
  \<open>C = 0.002\<close> and \<open>R_now = 500\<close>: each literal is the binary64 value nearest to it.
\<close>

definition scenario_T :: jsval where
  "scenario_T = to_double (4 / 1000)"

definition scenario_s :: jsval where
  "scenario_s = to_double (6 / 10)"

definition scenario_C :: jsval where
  "scenario_C = to_double (2 / 1000)"

definition scenario_R :: jsval where
  "scenario_R = Num 500"

text \<open>A rational that is a binary64 value: rounding leaves it as it is.\<close>

definition is_double :: "rat \<Rightarrow> bool" where
  "is_double r = (to_double r = Num r)"

text \<open>
  The jitter magnitudes in use (the pair given, or the default \<open>[5, 5]\<close>) are finite and at
  most \<open>2^53\<close> in magnitude.
\<close>

definition moderate_jitter :: "options \<Rightarrow> bool" where
  "moderate_jitter opts =
     (case jitterRange opts of
        None \<Rightarrow> True
      | Some p \<Rightarrow>
          (case p of
             (Num l, Num h) \<Rightarrow> \<bar>l\<bar> \<le> 2 ^ 53 \<and> \<bar>h\<bar> \<le> 2 ^ 53
           | _ \<Rightarrow> False))"

text \<open>
  With guard rails enabled, the two clamp bounds the code computes for \<open>R_now\<close> are finite
  numbers: neither product overflows.
\<close>

definition finite_bounds :: "jsval \<Rightarrow> options \<Rightarrow> bool" where
  "finite_bounds R_now opts =
     (guardRailsEnabled opts \<longrightarrow>
        Number_isFinite (js_mul R_now (js_add (Num 1) (js_div (lowPct_of opts) (Num 100)))) \<and>
        Number_isFinite (js_mul R_now (js_add (Num 1) (js_div (highPct_of opts) (Num 100)))))"

text \<open>The binary64 value \<open>2^1023\<close>, about \<open>9 * 10^307\<close>.\<close>

definition huge :: rat where
  "huge = 2 powi 1023"

section \<open>Rounding to binary64: monotone, exact on binary64 values\<close>

lemma p2_pos [simp]: "0 < (2::rat) powi e"
  by (simp add: zero_less_power_int)

lemma p2_add: "(2::rat) powi (a + b) = 2 powi a * 2 powi b"
  by (simp add: power_int_add)

lemma p2_mono: "a \<le> b \<Longrightarrow> (2::rat) powi a \<le> 2 powi b"
  by (simp add: power_int_increasing)

lemma p2_strict: "a < b \<Longrightarrow> (2::rat) powi a < 2 powi b"
  by (simp add: power_int_strict_increasing)

lemma p2_le_iff: "((2::rat) powi a \<le> 2 powi b) = (a \<le> b)"
  using p2_mono [of a b] p2_strict [of b a] by (auto simp: not_le [symmetric])

lemma p2_less_iff: "((2::rat) powi a < 2 powi b) = (a < b)"
  using p2_le_iff [of b a] by (simp only: not_le [symmetric])

lemma p2_div: "(2::rat) powi a / 2 powi b = 2 powi (a - b)"
  by (simp add: power_int_diff)

lemma expo_bounds:
  assumes "x \<noteq> 0"
  shows "2 powi expo x \<le> \<bar>x\<bar> \<and> \<bar>x\<bar> < 2 powi (expo x + 1)"
proof -
  obtain p q where pq: "quotient_of \<bar>x\<bar> = (p, q)" by (cases "quotient_of \<bar>x\<bar>")
  have q: "0 < q" using pq by (rule quotient_of_denom_pos)
  have x: "\<bar>x\<bar> = of_int p / of_int q" using pq by (rule quotient_of_div)
  have "0 < \<bar>x\<bar>" using assms by simp
  then have p: "0 < p" using x q by (simp add: zero_less_divide_iff)
  define lp where "lp = bitlen p"
  define lq where "lq = bitlen q"
  have lp1: "1 \<le> lp" using p bitlen_eq_zero_iff [of p] bitlen_nonneg [of p] by (simp add: lp_def)
  have lq1: "1 \<le> lq" using q bitlen_eq_zero_iff [of q] bitlen_nonneg [of q] by (simp add: lq_def)
  have bp: "2 ^ nat (lp - 1) \<le> p \<and> p < 2 ^ nat lp" using bitlen_bounds [OF p] by (simp add: lp_def)
  have bq: "2 ^ nat (lq - 1) \<le> q \<and> q < 2 ^ nat lq" using bitlen_bounds [OF q] by (simp add: lq_def)
  have rp1: "(2::rat) powi (lp - 1) \<le> of_int p"
  proof -
    have "(of_int (2 ^ nat (lp - 1)) :: rat) \<le> of_int p" using bp by (simp only: of_int_le_iff)
    then show ?thesis using lp1 by (simp add: power_int_def)
  qed
  have rp2: "of_int p < (2::rat) powi lp"
  proof -
    have "(of_int p :: rat) < of_int (2 ^ nat lp)" using bp by (simp only: of_int_less_iff)
    then show ?thesis using lp1 by (simp add: power_int_def)
  qed
  have rq1: "(2::rat) powi (lq - 1) \<le> of_int q"
  proof -
    have "(of_int (2 ^ nat (lq - 1)) :: rat) \<le> of_int q" using bq by (simp only: of_int_le_iff)
    then show ?thesis using lq1 by (simp add: power_int_def)
  qed
  have rq2: "of_int q < (2::rat) powi lq"
  proof -
    have "(of_int q :: rat) < of_int (2 ^ nat lq)" using bq by (simp only: of_int_less_iff)
    then show ?thesis using lq1 by (simp add: power_int_def)
  qed
  have qpos: "(0::rat) < of_int q" using q by simp
  have up: "\<bar>x\<bar> < 2 powi (lp - lq + 1)"
  proof -
    have "of_int p < (2::rat) powi lp" by (rule rp2)
    also have "\<dots> = 2 powi (lp - lq + 1) * 2 powi (lq - 1)" by (simp add: p2_add [symmetric])
    also have "\<dots> \<le> 2 powi (lp - lq + 1) * of_int q" using rq1 by (simp add: mult_left_mono)
    finally show ?thesis using qpos by (simp add: x pos_divide_less_eq)
  qed
  have lo: "2 powi (lp - lq - 1) < \<bar>x\<bar>"
  proof -
    have "2 powi (lp - lq - 1) * of_int q < 2 powi (lp - lq - 1) * (2::rat) powi lq"
      using rq2 by (simp add: mult_strict_left_mono)
    also have "\<dots> = 2 powi (lp - 1)" by (simp add: p2_add [symmetric])
    also have "\<dots> \<le> of_int p" by (rule rp1)
    finally show ?thesis using qpos by (simp add: x pos_less_divide_eq)
  qed
  show ?thesis
  proof (cases "2 powi (lp - lq) \<le> \<bar>x\<bar>")
    case True
    then have "expo x = lp - lq" by (simp add: expo_def pq lp_def lq_def Let_def)
    then show ?thesis using True up by simp
  next
    case False
    then have e: "expo x = lp - lq - 1" by (simp add: expo_def pq lp_def lq_def Let_def)
    show ?thesis using False lo by (simp add: e)
  qed
qed

lemma expo_unique:
  assumes "2 powi e \<le> \<bar>x\<bar>" and "\<bar>x\<bar> < 2 powi (e + 1)"
  shows "expo x = e"
proof -
  have "0 < \<bar>x\<bar>" using assms(1) p2_pos [of e] by (rule_tac less_le_trans)
  then have "x \<noteq> 0" by simp
  then have b: "2 powi expo x \<le> \<bar>x\<bar>" "\<bar>x\<bar> < 2 powi (expo x + 1)" using expo_bounds by auto
  have "2 powi e < (2::rat) powi (expo x + 1)" using assms(1) b(2) by simp
  then have 1: "e < expo x + 1" using p2_mono [of "expo x + 1" e] by (cases "e < expo x + 1") auto
  have "2 powi expo x < (2::rat) powi (e + 1)" using assms(2) b(1) by simp
  then have 2: "expo x < e + 1" using p2_mono [of "e + 1" "expo x"] by (cases "expo x < e + 1") auto
  show ?thesis using 1 2 by simp
qed

lemma expo_mono:
  assumes "x \<noteq> 0" and "\<bar>x\<bar> \<le> \<bar>y\<bar>"
  shows "expo x \<le> expo y"
proof (rule ccontr)
  assume "\<not> expo x \<le> expo y"
  then have "expo y + 1 \<le> expo x" by simp
  then have "(2::rat) powi (expo y + 1) \<le> 2 powi expo x" by (rule p2_mono)
  moreover have "y \<noteq> 0" using assms by auto
  ultimately show False using expo_bounds [OF assms(1)] expo_bounds [of y] assms(2) by simp
qed

lemma expo_abs [simp]: "expo \<bar>x\<bar> = expo x"
  by (simp add: expo_def)

lemma expo_minus [simp]: "expo (- x) = expo x"
  by (simp add: expo_def)

lemma rne_of_int [simp]: "rne (of_int n) = n"
  by (simp add: rne_def)

lemma rne_floor_bounds: "\<lfloor>t\<rfloor> \<le> rne t \<and> rne t \<le> \<lfloor>t\<rfloor> + 1"
  by (simp add: rne_def Let_def)

lemma rne_mono:
  assumes "t \<le> u"
  shows "rne t \<le> rne u"
proof (cases "\<lfloor>t\<rfloor> = \<lfloor>u\<rfloor>")
  case True
  then show ?thesis using assms by (auto simp: rne_def Let_def)
next
  case False
  then have "\<lfloor>t\<rfloor> + 1 \<le> \<lfloor>u\<rfloor>" using floor_mono [OF assms] by simp
  then show ?thesis using rne_floor_bounds [of t] rne_floor_bounds [of u] by simp
qed

lemma rne_le_int: "t \<le> of_int n \<Longrightarrow> rne t \<le> n"
  using rne_mono [of t "of_int n"] by simp

lemma rne_ge_int: "of_int n \<le> t \<Longrightarrow> n \<le> rne t"
  using rne_mono [of "of_int n" t] by simp

lemma rne_half: "\<bar>of_int (rne t) - t\<bar> \<le> 1 / 2"
proof -
  have "of_int \<lfloor>t\<rfloor> \<le> t" "t < of_int \<lfloor>t\<rfloor> + 1" by linarith+
  then show ?thesis by (auto simp: rne_def Let_def)
qed


lemma p2_53: "(9007199254740992::rat) * 2 powi a = 2 powi (a + 53)"
  by (simp add: p2_add)

lemma p2_52: "(4503599627370496::rat) * 2 powi a = 2 powi (a + 52)"
  by (simp add: p2_add)

lemma rne_zero [simp]: "rne 0 = 0"
  by (simp add: rne_def)

lemma quantum_pos [simp]: "0 < quantum x"
  by (simp add: quantum_def)

lemma quantum_nonneg [simp]: "0 \<le> quantum x"
  by (simp add: quantum_def less_imp_le)

lemma quantum_nz [simp]: "quantum x \<noteq> 0"
  by (simp add: quantum_def)

lemma quantum_minus [simp]: "quantum (- x) = quantum x"
  by (simp add: quantum_def)

lemma round_mag_minus [simp]: "round_mag (- x) = round_mag x"
  by (simp add: round_mag_def)

lemma round_mag_nonneg: "0 \<le> round_mag x"
proof -
  have "0 \<le> \<bar>x\<bar> / quantum x" by simp
  then have "0 \<le> rne (\<bar>x\<bar> / quantum x)" using rne_ge_int [of 0] by simp
  then show ?thesis by (simp add: round_mag_def)
qed

lemma round_mag_upper:
  assumes "x \<noteq> 0"
  shows "round_mag x \<le> 2 powi (max (expo x) (- 1022) + 1)"
proof -
  define e where "e = max (expo x) (- 1022)"
  have q: "quantum x = 2 powi (e - 52)" by (simp add: quantum_def e_def)
  have "\<bar>x\<bar> < 2 powi (expo x + 1)" using expo_bounds [OF assms] by simp
  also have "\<dots> \<le> 2 powi (e + 1)" by (rule p2_mono) (simp add: e_def)
  finally have "\<bar>x\<bar> / quantum x \<le> 2 powi (e + 1) / 2 powi (e - 52)"
    by (simp add: q divide_right_mono)
  also have "\<dots> = of_int (2 ^ 53)" by (simp add: p2_div)
  finally have "rne (\<bar>x\<bar> / quantum x) \<le> 2 ^ 53" by (rule rne_le_int)
  then have "(of_int (rne (\<bar>x\<bar> / quantum x)) :: rat) \<le> of_int (2 ^ 53)" by (simp only: of_int_le_iff)
  then have "round_mag x \<le> of_int (2 ^ 53) * 2 powi (e - 52)"
    by (simp add: round_mag_def q mult_right_mono)
  also have "\<dots> = 2 powi (e - 52 + 53)" by (simp add: p2_53)
  also have "e - 52 + 53 = e + 1" by simp
  finally show ?thesis by (simp add: e_def)
qed

lemma round_mag_lower:
  assumes "x \<noteq> 0" and "- 1022 \<le> expo x"
  shows "2 powi expo x \<le> round_mag x"
proof -
  define e where "e = expo x"
  have q: "quantum x = 2 powi (e - 52)" using assms(2) by (simp add: quantum_def e_def max_def)
  have "of_int (2 ^ 52) = 2 powi e / (2::rat) powi (e - 52)" by (simp add: p2_div)
  also have "\<dots> \<le> \<bar>x\<bar> / quantum x"
    using expo_bounds [OF assms(1)] by (simp add: q e_def divide_right_mono)
  finally have "2 ^ 52 \<le> rne (\<bar>x\<bar> / quantum x)" by (rule rne_ge_int)
  then have "(of_int (2 ^ 52) :: rat) \<le> of_int (rne (\<bar>x\<bar> / quantum x))" by (simp only: of_int_le_iff)
  then have "of_int (2 ^ 52) * 2 powi (e - 52) \<le> round_mag x"
    by (simp add: round_mag_def q mult_right_mono)
  moreover have "of_int (2 ^ 52) * 2 powi (e - 52) = (2::rat) powi e" by (simp add: p2_52)
  ultimately show ?thesis by (simp add: e_def)
qed

lemma round_mag_mono:
  assumes "x \<noteq> 0" and "\<bar>x\<bar> \<le> \<bar>y\<bar>"
  shows "round_mag x \<le> round_mag y"
proof -
  have y: "y \<noteq> 0" using assms by auto
  have em: "expo x \<le> expo y" using assms by (rule expo_mono)
  show ?thesis
  proof (cases "max (expo x) (- 1022) = max (expo y) (- 1022)")
    case True
    then have q: "quantum x = quantum y" by (simp add: quantum_def)
    have "\<bar>x\<bar> / quantum y \<le> \<bar>y\<bar> / quantum y" using assms(2) by (simp add: divide_right_mono)
    then have "rne (\<bar>x\<bar> / quantum y) \<le> rne (\<bar>y\<bar> / quantum y)" by (rule rne_mono)
    then have "(of_int (rne (\<bar>x\<bar> / quantum y)) :: rat) \<le> of_int (rne (\<bar>y\<bar> / quantum y))"
      by (simp only: of_int_le_iff)
    then show ?thesis by (simp add: round_mag_def q mult_right_mono)
  next
    case False
    then have lt: "max (expo x) (- 1022) + 1 \<le> expo y" and n: "- 1022 \<le> expo y" using em by auto
    have "round_mag x \<le> 2 powi (max (expo x) (- 1022) + 1)" using assms(1) by (rule round_mag_upper)
    also have "\<dots> \<le> 2 powi expo y" using lt by (rule p2_mono)
    also have "\<dots> \<le> round_mag y" using y n by (rule round_mag_lower)
    finally show ?thesis .
  qed
qed

lemma round_mag_zero [simp]: "round_mag 0 = 0"
  by (simp add: round_mag_def)

lemma round_mag_exact:
  assumes x: "x = of_int m * 2 powi k" and m: "\<bar>m\<bar> < 2 ^ 53" and k: "- 1074 \<le> k"
  shows "round_mag x = \<bar>x\<bar>"
proof (cases "x = 0")
  case True
  then show ?thesis by simp
next
  case False
  define e where "e = max (expo x) (- 1022)"
  have q: "quantum x = 2 powi (e - 52)" by (simp add: quantum_def e_def)
  have ax: "\<bar>x\<bar> = of_int \<bar>m\<bar> * 2 powi k" by (simp add: x abs_mult)
  have ke: "e - 52 \<le> k"
  proof (cases "expo x \<le> - 1022")
    case True
    then show ?thesis using k by (simp add: e_def max_def)
  next
    case False
    then have ee: "e = expo x" by (simp add: e_def max_def)
    have "(of_int \<bar>m\<bar> :: rat) < of_int (2 ^ 53)" using m by (simp only: of_int_less_iff)
    then have "(of_int \<bar>m\<bar> :: rat) < 9007199254740992" by simp
    then have "of_int \<bar>m\<bar> * 2 powi k < (9007199254740992 :: rat) * 2 powi k"
      by (rule mult_strict_right_mono) simp
    then have "\<bar>x\<bar> < 2 powi (k + 53)" by (simp only: ax p2_53)
    moreover have "2 powi e \<le> \<bar>x\<bar>" using expo_bounds [OF \<open>x \<noteq> 0\<close>] by (simp add: ee)
    ultimately have "(2::rat) powi e < 2 powi (k + 53)" by simp
    then have "e < k + 53" using p2_mono [of "k + 53" e] by (cases "e < k + 53") auto
    then show ?thesis by simp
  qed
  define j where "j = nat (k - (e - 52))"
  have kj: "k = (e - 52) + int j" using ke by (simp add: j_def)
  have "\<bar>x\<bar> / quantum x = of_int \<bar>m\<bar> * (2 powi k / 2 powi (e - 52))" by (simp add: ax q)
  also have "2 powi k / (2::rat) powi (e - 52) = 2 powi (int j)" by (simp add: p2_div kj)
  also have "of_int \<bar>m\<bar> * (2::rat) powi (int j) = of_int (\<bar>m\<bar> * 2 ^ j)" by simp
  finally have eq: "\<bar>x\<bar> / quantum x = of_int (\<bar>m\<bar> * 2 ^ j)" .
  have "rne (\<bar>x\<bar> / quantum x) = \<bar>m\<bar> * 2 ^ j" by (simp only: eq rne_of_int)
  then have "round_mag x = of_int (\<bar>m\<bar> * 2 ^ j) * 2 powi (e - 52)" by (simp add: round_mag_def q)
  also have "\<dots> = of_int \<bar>m\<bar> * (2 powi (int j) * 2 powi (e - 52))" by simp
  also have "2 powi (int j) * (2::rat) powi (e - 52) = 2 powi k"
    unfolding kj p2_add by (simp only: mult.commute)
  finally show ?thesis by (simp add: ax)
qed

lemma round_mag_error: "\<bar>round_mag x - \<bar>x\<bar>\<bar> \<le> quantum x / 2"
proof -
  define q where "q = quantum x"
  define t where "t = \<bar>x\<bar> / q"
  have qp: "0 < q" by (simp add: q_def)
  have "round_mag x - \<bar>x\<bar> = (of_int (rne t) - t) * q"
    using qp by (simp add: round_mag_def q_def t_def algebra_simps)
  then have "\<bar>round_mag x - \<bar>x\<bar>\<bar> = \<bar>of_int (rne t) - t\<bar> * q"
    using qp by (simp add: abs_mult)
  also have "\<dots> \<le> 1 / 2 * q"
    using rne_half [of t] qp by (intro mult_right_mono) simp_all
  finally show ?thesis by (simp add: q_def)
qed


lemma to_double_zero [simp]: "to_double 0 = Num 0"
  by (simp add: to_double_def)

lemma to_double_is_num [simp]: "is_num (to_double x)"
  by (simp add: to_double_def)

lemma to_double_minus: "to_double (- x) = num_neg (to_double x)"
  by (simp add: to_double_def)

lemma to_double_pos:
  "0 < x \<Longrightarrow> to_double x = (if overflow_bound \<le> round_mag x then PosInf else Num (round_mag x))"
  by (simp add: to_double_def)

lemma to_double_neg:
  "x < 0 \<Longrightarrow> to_double x = (if overflow_bound \<le> round_mag x then NegInf else Num (- round_mag x))"
  by (simp add: to_double_def)

lemma to_double_mono:
  assumes "x \<le> y"
  shows "num_le (to_double x) (to_double y)"
proof -
  consider "x = 0" "y = 0" | "x = 0" "0 < y" | "x < 0" "y = 0" | "0 < x" "0 < y"
    | "x < 0" "y < 0" | "x < 0" "0 < y"
    using assms by (cases "0 < x"; cases "0 < y"; cases "x = 0"; cases "y = 0") auto
  then show ?thesis
  proof cases
    case 1
    then show ?thesis by simp
  next
    case 2
    then show ?thesis using round_mag_nonneg [of y] by (simp add: to_double_pos)
  next
    case 3
    then show ?thesis using round_mag_nonneg [of x] by (simp add: to_double_neg)
  next
    case 4
    then have "round_mag x \<le> round_mag y" using assms by (intro round_mag_mono) auto
    then show ?thesis using 4 by (auto simp: to_double_pos)
  next
    case 5
    then have "round_mag y \<le> round_mag x" using assms by (intro round_mag_mono) auto
    then show ?thesis using 5 by (auto simp: to_double_neg)
  next
    case 6
    then show ?thesis using round_mag_nonneg [of x] round_mag_nonneg [of y]
      by (auto simp: to_double_pos to_double_neg)
  qed
qed

lemma to_double_exact:
  assumes x: "x = of_int m * 2 powi k" and m: "\<bar>m\<bar> < 2 ^ 53" and k: "- 1074 \<le> k"
    and b: "\<bar>x\<bar> < overflow_bound"
  shows "to_double x = Num x"
proof -
  have r: "round_mag x = \<bar>x\<bar>" using x m k by (rule round_mag_exact)
  show ?thesis
  proof (cases "x = 0")
    case True
    then show ?thesis by simp
  next
    case False
    then have "sgn x * \<bar>x\<bar> = x" by (simp add: sgn_if)
    then show ?thesis using b False by (simp add: to_double_def r not_le [symmetric])
  qed
qed

lemma to_double_of_int:
  assumes "\<bar>m\<bar> < 2 ^ 53"
  shows "to_double (of_int m) = Num (of_int m)"
proof (rule to_double_exact [where m = m and k = 0])
  show "(of_int m :: rat) = of_int m * 2 powi 0" by simp
  show "\<bar>m\<bar> < 2 ^ 53" by (rule assms)
  show "- 1074 \<le> (0::int)" by simp
  have "\<bar>of_int m :: rat\<bar> = of_int \<bar>m\<bar>" by simp
  also have "\<dots> < of_int (2 ^ 53)" using assms by (simp only: of_int_less_iff)
  also have "\<dots> = 2 powi 53" by simp
  also have "\<dots> \<le> overflow_bound" unfolding overflow_bound_def by (rule p2_mono) simp
  finally show "\<bar>of_int m :: rat\<bar> < overflow_bound" .
qed

lemma to_double_p2:
  assumes "- 1074 \<le> k" and "k < 1024"
  shows "to_double (2 powi k) = Num (2 powi k)"
proof (rule to_double_exact [where m = 1 and k = k])
  show "(2::rat) powi k = of_int 1 * 2 powi k" by simp
  show "\<bar>1::int\<bar> < 2 ^ 53" by simp
  show "- 1074 \<le> k" by (rule assms)
  have "\<bar>(2::rat) powi k\<bar> = 2 powi k" by (simp add: less_imp_le)
  also have "\<dots> < overflow_bound" unfolding overflow_bound_def using assms(2) by (rule p2_strict)
  finally show "\<bar>(2::rat) powi k\<bar> < overflow_bound" .
qed

lemma overflow_bound_pos [simp]: "0 < overflow_bound"
  unfolding overflow_bound_def by (rule p2_pos)

lemma to_double_overflow:
  assumes "overflow_bound \<le> x"
  shows "to_double x = PosInf"
proof -
  have pos: "0 < x" using overflow_bound_pos assms by (rule less_le_trans)
  then have nz: "x \<noteq> 0" by simp
  have "overflow_bound \<le> \<bar>x\<bar>" using assms pos by simp
  also have "\<dots> < 2 powi (expo x + 1)" using expo_bounds [OF nz] by simp
  finally have "(2::rat) powi 1024 < 2 powi (expo x + 1)" unfolding overflow_bound_def .
  then have "1024 < expo x + 1" by (simp only: p2_less_iff)
  then have e: "1024 \<le> expo x" by simp
  then have "overflow_bound \<le> 2 powi expo x" unfolding overflow_bound_def by (rule p2_mono)
  also have "\<dots> \<le> round_mag x" using nz e by (intro round_mag_lower) auto
  finally show ?thesis using pos by (simp add: to_double_pos)
qed

lemma overflow_iff:
  assumes "x \<noteq> 0"
  shows "(overflow_bound \<le> round_mag x) =
         (1024 \<le> max (expo x) (- 1022) \<or>
          (max (expo x) (- 1022) = 1023 \<and> 2 ^ 53 \<le> rne (\<bar>x\<bar> / quantum x)))"
proof -
  define e where "e = max (expo x) (- 1022)"
  define m where "m = rne (\<bar>x\<bar> / quantum x)"
  have r: "round_mag x = of_int m * 2 powi (e - 52)"
    by (simp add: round_mag_def quantum_def e_def m_def)
  have split: "(2::rat) powi 1024 = 2 powi 53 * 2 powi 971"
    by (simp only: p2_add [symmetric]) simp
  have "(overflow_bound \<le> round_mag x) = (1024 \<le> e \<or> (e = 1023 \<and> 2 ^ 53 \<le> m))"
  proof
    assume a: "overflow_bound \<le> round_mag x"
    have "round_mag x \<le> 2 powi (e + 1)" using round_mag_upper [OF assms] by (simp add: e_def)
    then have "overflow_bound \<le> 2 powi (e + 1)" using a by (rule_tac order_trans)
    then have "(2::rat) powi 1024 \<le> 2 powi (e + 1)" unfolding overflow_bound_def .
    then have "1024 \<le> e + 1" by (simp only: p2_le_iff)
    then have e1: "1023 \<le> e" by simp
    show "1024 \<le> e \<or> (e = 1023 \<and> 2 ^ 53 \<le> m)"
    proof (cases "e = 1023")
      case True
      have "(2::rat) powi 53 * 2 powi 971 \<le> of_int m * 2 powi (1023 - 52)"
        using a unfolding r True overflow_bound_def split .
      then have "(2::rat) powi 53 * 2 powi 971 \<le> of_int m * 2 powi 971" by simp
      then have "(2::rat) powi 53 \<le> of_int m" by (simp only: mult_le_cancel_right_pos p2_pos)
      then have "(of_int (2 ^ 53) :: rat) \<le> of_int m" by simp
      then have "2 ^ 53 \<le> m" by (simp only: of_int_le_iff)
      then show ?thesis using True by simp
    next
      case False
      then show ?thesis using e1 by simp
    qed
  next
    assume a: "1024 \<le> e \<or> (e = 1023 \<and> 2 ^ 53 \<le> m)"
    then show "overflow_bound \<le> round_mag x"
    proof
      assume e: "1024 \<le> e"
      then have ee: "e = expo x" by (simp add: e_def max_def split: if_splits)
      have "overflow_bound \<le> 2 powi expo x"
        unfolding overflow_bound_def using e ee by (intro p2_mono) simp
      also have "\<dots> \<le> round_mag x" using assms e ee by (intro round_mag_lower) auto
      finally show ?thesis .
    next
      assume b: "e = 1023 \<and> 2 ^ 53 \<le> m"
      then have "(of_int (2 ^ 53) :: rat) \<le> of_int m" by (simp only: of_int_le_iff)
      then have "(2::rat) powi 53 \<le> of_int m" by simp
      then have "(2::rat) powi 53 * 2 powi 971 \<le> of_int m * 2 powi 971"
        by (simp only: mult_le_cancel_right_pos p2_pos)
      moreover have "e - 52 = 971" using b by simp
      ultimately show ?thesis unfolding r overflow_bound_def split by simp
    qed
  qed
  then show ?thesis by (simp only: e_def m_def)
qed

lemma to_double_code [code]:
  "to_double x =
     (if x = 0 then Num 0
      else if 1024 \<le> max (expo x) (- 1022) \<or>
              (max (expo x) (- 1022) = 1023 \<and> 2 ^ 53 \<le> rne (\<bar>x\<bar> / quantum x))
           then (if 0 < x then PosInf else NegInf)
      else Num (sgn x * round_mag x))"
proof (cases "x = 0")
  case True
  then show ?thesis by simp
next
  case False
  show ?thesis by (simp only: to_double_def overflow_iff [OF False])
qed

text \<open>What \<open>to_double\<close> returns is a binary64 value: rounding it again changes nothing.\<close>

lemma to_double_idem:
  assumes "to_double x = Num r"
  shows "to_double r = Num r"
proof (cases "x = 0")
  case True
  then show ?thesis using assms by auto
next
  case False
  define e where "e = max (expo x) (- 1022)"
  define m where "m = rne (\<bar>x\<bar> / quantum x)"
  define sg :: int where "sg = (if 0 < x then 1 else - 1)"
  have rm: "round_mag x = of_int m * 2 powi (e - 52)"
    by (simp add: round_mag_def quantum_def e_def m_def)
  have no: "\<not> overflow_bound \<le> round_mag x" and r: "r = sgn x * round_mag x"
    using assms False by (auto simp: to_double_def split: if_splits)
  have m0: "0 \<le> m" unfolding m_def by (rule rne_ge_int) simp
  have up: "round_mag x \<le> 2 powi (e + 1)"
    using round_mag_upper [OF False] by (simp add: e_def)
  have ee: "e + 1 = e - 52 + 53" by simp
  have "(of_int m :: rat) * 2 powi (e - 52) \<le> 2 powi (e - 52 + 53)"
    using up unfolding rm by (simp only: ee)
  also have "\<dots> = 9007199254740992 * 2 powi (e - 52)" by (simp only: p2_53)
  finally have "(of_int m :: rat) \<le> 9007199254740992"
    by (simp only: mult_le_cancel_right_pos p2_pos)
  then have "(of_int m :: rat) \<le> of_int (2 ^ 53)" by simp
  then have m53: "m \<le> 2 ^ 53" by (simp only: of_int_le_iff)
  have sx: "sgn x = of_int sg" using False by (simp add: sg_def sgn_if)
  have rr: "r = of_int (sg * m) * 2 powi (e - 52)" by (simp add: r sx rm)
  have ar: "\<bar>r\<bar> = round_mag x"
    using round_mag_nonneg [of x] False by (simp add: r abs_mult sgn_if)
  show ?thesis
  proof (cases "m < 2 ^ 53")
    case True
    show ?thesis
    proof (rule to_double_exact [where m = "sg * m" and k = "e - 52"])
      show "r = of_int (sg * m) * 2 powi (e - 52)" by (rule rr)
      show "\<bar>sg * m\<bar> < 2 ^ 53" using True m0 by (simp add: sg_def abs_mult)
      show "- 1074 \<le> e - 52" by (simp add: e_def)
      show "\<bar>r\<bar> < overflow_bound" using no by (simp add: ar)
    qed
  next
    case False
    then have m: "m = 2 ^ 53" using m53 by simp
    have "round_mag x = 9007199254740992 * 2 powi (e - 52)" by (simp add: rm m)
    also have "\<dots> = 2 powi (e - 52 + 53)" by (simp only: p2_53)
    finally have rp: "round_mag x = 2 powi (e + 1)" by (simp add: add.commute)
    have "(2::rat) powi (e + 1) < 2 powi 1024"
      using no unfolding rp overflow_bound_def by simp
    then have k: "e + 1 < 1024" by (simp only: p2_less_iff)
    have k0: "- 1074 \<le> e + 1" by (simp add: e_def)
    have d: "to_double (2 powi (e + 1)) = Num (2 powi (e + 1))" using k0 k by (rule to_double_p2)
    show ?thesis
    proof (cases "0 < x")
      case True
      then show ?thesis using d by (simp add: r rp)
    next
      case False
      then have "r = - (2 powi (e + 1))" using \<open>x \<noteq> 0\<close> by (simp add: r rp sgn_if)
      then show ?thesis using d by (simp add: to_double_minus)
    qed
  qed
qed

section \<open>The operators on numbers\<close>

lemma js_add_Num: "js_add (Num a) (Num b) = to_double (a + b)"
  and js_add_Null: "js_add Null (Num b) = to_double b"
  and js_sub_Num: "js_sub (Num a) (Num b) = to_double (a - b)"
  and js_mul_Num: "js_mul (Num a) (Num b) = to_double (a * b)"
  and js_div_Num: "b \<noteq> 0 \<Longrightarrow> js_div (Num a) (Num b) = to_double (a / b)"
  and js_neg_Num: "js_neg (Num a) = Num (- a)"
  by (simp_all add: js_add_def js_sub_def js_mul_def js_div_def js_neg_def)

lemma js_lt_Num: "js_lt (Num a) (Num b) = (a < b)"
  and js_gt_Num: "js_gt (Num a) (Num b) = (b < a)"
  and js_le_Num: "js_le (Num a) (Num b) = (a \<le> b)"
  and js_lt_Null: "js_lt (Num a) Null = (a < 0)"
  and js_gt_Null: "js_gt (Num a) Null = (0 < a)"
  by (simp_all add: js_lt_def js_gt_def js_le_def)

lemma Math_floor_Num: "Math_floor (Num a) = Num (of_int \<lfloor>a\<rfloor>)"
  and Math_ceil_Num: "Math_ceil (Num a) = Num (of_int \<lceil>a\<rceil>)"
  and Math_round_Num: "Math_round (Num a) = Num (of_int \<lfloor>a + 1 / 2\<rfloor>)"
  and Math_max_Num: "Math_max (Num a) (Num b) = Num (max a b)"
  and Math_min_Num: "Math_min (Num a) (Num b) = Num (min a b)"
  by (simp_all add: Math_floor_def Math_ceil_def Math_round_def Math_max_def Math_min_def
      max_def min_def)

lemmas js_Num_simps =
  js_add_Num js_add_Null js_sub_Num js_mul_Num js_div_Num js_neg_Num
  js_lt_Num js_gt_Num js_le_Num js_lt_Null js_gt_Null
  Math_floor_Num Math_ceil_Num Math_round_Num Math_max_Num Math_min_Num

lemma Number_isFinite_iff: "Number_isFinite v = (\<exists>a. v = Num a)"
  by (cases v) auto

lemma is_num_iff: "is_num v = (v = PosInf \<or> v = NegInf \<or> (\<exists>a. v = Num a))"
  by (cases v) auto

lemma ToNumber_is_num [simp]: "is_num v \<Longrightarrow> ToNumber v = v"
  by (cases v) auto

lemma is_num_not_NaN: "is_num v \<Longrightarrow> v \<noteq> NaN"
  by (cases v) auto

lemma num_le_refl: "is_num v \<Longrightarrow> num_le v v"
  by (cases v) auto

lemma num_le_trans: "num_le a b \<Longrightarrow> num_le b c \<Longrightarrow> num_le a c"
  by (cases a; cases b; cases c) auto

lemma num_le_is_num: "num_le a b \<Longrightarrow> is_num a \<and> is_num b"
  by (cases a; cases b) auto

lemma num_lt_le: "num_lt a b \<Longrightarrow> num_le a b"
  by (cases a; cases b) auto

lemma not_num_lt: "is_num a \<Longrightarrow> is_num b \<Longrightarrow> \<not> num_lt a b \<Longrightarrow> num_le b a"
  by (cases a; cases b) auto

lemma num_le_PosInf: "is_num v \<Longrightarrow> num_le v PosInf"
  by (cases v) auto

lemma num_le_NegInf: "is_num v \<Longrightarrow> num_le NegInf v"
  by (cases v) auto

lemma to_double_nonneg: "0 \<le> x \<Longrightarrow> num_le (Num 0) (to_double x)"
  using to_double_mono [of 0 x] by simp

lemma to_double_nonpos: "x \<le> 0 \<Longrightarrow> num_le (to_double x) (Num 0)"
  using to_double_mono [of x 0] by simp

lemma nonneg_cases: "num_le (Num 0) v = (v = PosInf \<or> (\<exists>r. v = Num r \<and> 0 \<le> r))"
  by (cases v) auto

lemma num_div_mono:
  assumes "0 < c" and "num_le v w"
  shows "num_le (num_div v (Num c)) (num_div w (Num c))"
proof -
  have "\<And>a b. a \<le> b \<Longrightarrow> num_le (to_double (a / c)) (to_double (b / c))"
    using assms(1) by (intro to_double_mono divide_right_mono) simp_all
  then show ?thesis
    using assms by (cases v; cases w) (auto simp: num_le_PosInf num_le_NegInf)
qed

lemma num_add_mono:
  assumes "num_le v w"
  shows "num_le (num_add (Num c) v) (num_add (Num c) w)"
proof -
  have "\<And>a b. a \<le> b \<Longrightarrow> num_le (to_double (c + a)) (to_double (c + b))"
    by (intro to_double_mono) simp
  then show ?thesis
    using assms by (cases v; cases w) (auto simp: num_le_PosInf num_le_NegInf)
qed

lemma num_mul_mono:
  assumes "0 < c" and "num_le v w"
  shows "num_le (num_mul (Num c) v) (num_mul (Num c) w)"
proof -
  have "\<And>a b. a \<le> b \<Longrightarrow> num_le (to_double (c * a)) (to_double (c * b))"
    using assms(1) by (intro to_double_mono mult_left_mono) simp_all
  then show ?thesis
    using assms by (cases v; cases w) (auto simp: num_le_PosInf num_le_NegInf)
qed

lemma num_div_nonneg: "0 < c \<Longrightarrow> num_le (Num 0) v \<Longrightarrow> num_le (Num 0) (num_div v (Num c))"
  using num_div_mono [of c "Num 0" v] by simp

lemma num_mul_nonneg: "0 < c \<Longrightarrow> num_le (Num 0) v \<Longrightarrow> num_le (Num 0) (num_mul (Num c) v)"
  using num_mul_mono [of c "Num 0" v] by simp

text \<open>A rational within the binary64 range rounds to a finite number within the same bound.\<close>

lemma to_double_bounded:
  assumes "\<bar>x\<bar> \<le> 2 powi k" and "- 1074 \<le> k" and "k < 1024"
  shows "\<exists>r. to_double x = Num r \<and> \<bar>r\<bar> \<le> 2 powi k"
proof -
  have up: "num_le (to_double x) (Num (2 powi k))"
    using to_double_mono [of x "2 powi k"] assms by (simp add: to_double_p2)
  have "num_le (to_double (- (2 powi k))) (to_double x)"
    using assms(1) by (intro to_double_mono) simp
  then have lo: "num_le (Num (- (2 powi k))) (to_double x)"
    using assms by (simp add: to_double_minus to_double_p2)
  show ?thesis using up lo by (cases "to_double x") auto
qed

lemma is_double_of_int: "\<bar>m\<bar> < 2 ^ 53 \<Longrightarrow> is_double (of_int m)"
  by (simp add: is_double_def to_double_of_int)

text \<open>A finite result of an operator is a binary64 value.\<close>

lemma js_mul_is_double: "js_mul v w = Num a \<Longrightarrow> is_double a"
  by (cases "ToNumber v"; cases "ToNumber w")
     (auto simp: js_mul_def is_double_def to_double_idem split: if_splits)

lemma js_add_is_double: "js_add v w = Num a \<Longrightarrow> is_double a"
  by (cases "ToNumber v"; cases "ToNumber w")
     (auto simp: js_add_def is_double_def to_double_idem split: if_splits)

section \<open>Validation of the four required inputs\<close>

lemma check_positive: "(\<not> Number_isFinite v \<or> js_le v (Num 0)) = (\<not> positive_finite v)"
  by (cases v) (auto simp: positive_finite_def js_le_def)

lemma check_share:
  "(\<not> Number_isFinite v \<or> js_le v (Num 0) \<or> js_gt v (Num 1)) = (\<not> share_in_range v)"
  by (cases v) (auto simp: share_in_range_def js_le_def js_gt_def)

lemma computeNewRgp_Inl_iff:
  "(\<exists>e. computeNewRgpFromInputs u T s C R opts = Inl e) =
     (\<not> positive_finite T \<or> \<not> share_in_range s \<or> \<not> positive_finite C \<or> \<not> positive_finite R)"
  unfolding computeNewRgpFromInputs_def check_positive check_share
  by (simp add: Let_def)

lemma computeNewRgp_zero_share:
  "positive_finite T \<Longrightarrow>
     computeNewRgpFromInputs u T (Num 0) C R opts = Inl InvalidAvgCompShare"
  unfolding computeNewRgpFromInputs_def check_positive check_share
  by (simp add: share_in_range_def)

text \<open>
  C5: the calculator fails, with no result at all, exactly when one of the four required
  inputs is outside its domain (not a finite number, or not positive, or a share above 1);
  a share of 0 fails with the share's error.
\<close>

theorem computeNewRgp_invalid_input:
  "((\<exists>e. computeNewRgpFromInputs u T s C R opts = Inl e) =
      (\<not> positive_finite T \<or> \<not> share_in_range s \<or> \<not> positive_finite C \<or> \<not> positive_finite R))
   \<and> (positive_finite T \<longrightarrow>
        computeNewRgpFromInputs u T (Num 0) C R opts = Inl InvalidAvgCompShare)"
  using computeNewRgp_Inl_iff computeNewRgp_zero_share by blast

theorem computeNewRgp_invalid_input_witness:
  "computeNewRgpFromInputs (1 / 2) (Num (1 / 250)) (Num 0) (Num (1 / 500)) (Num 500)
      scenario_options = Inl InvalidAvgCompShare
   \<and> (\<exists>e. computeNewRgpFromInputs (1 / 2) (Num (1 / 250)) (Num (3 / 5)) PosInf (Num 500)
      scenario_options = Inl e)
   \<and> (\<nexists>e. computeNewRgpFromInputs (1 / 2) (Num (1 / 250)) (Num (3 / 5)) (Num (1 / 500))
      (Num 500) scenario_options = Inl e)"
  using computeNewRgp_invalid_input
      [of "1 / 2" "Num (1 / 250)" "Num 0" "Num (1 / 500)" "Num 500" scenario_options]
    computeNewRgp_invalid_input
      [of "1 / 2" "Num (1 / 250)" "Num (3 / 5)" PosInf "Num 500" scenario_options]
    computeNewRgp_invalid_input
      [of "1 / 2" "Num (1 / 250)" "Num (3 / 5)" "Num (1 / 500)" "Num 500" scenario_options]
  by (simp add: positive_finite_def share_in_range_def)

section \<open>The calculation on valid inputs\<close>

lemma scenario_values:
  "scenario_T = Num (1152921504606847 / 288230376151711744)"
  "scenario_s = Num (5404319552844595 / 9007199254740992)"
  "scenario_C = Num (1152921504606847 / 576460752303423488)"
  "scenario_R = Num 500"
  unfolding scenario_T_def scenario_s_def scenario_C_def scenario_R_def by code_simp+

lemma computeNewRgp_valid:
  assumes "0 < T" "0 < s" "s \<le> 1" "0 < C" "0 < R"
  shows "\<exists>res. computeNewRgpFromInputs u (Num T) (Num s) (Num C) (Num R) opts = Inr res \<and>
     calc_C_target (calc res) = to_double (s * T) \<and>
     calc_k (calc res) = js_div (to_double (s * T)) (Num C) \<and>
     calc_R_raw (calc res) = js_mul (Num R) (js_div (to_double (s * T)) (Num C)) \<and>
     calc_clampMin (calc res) =
       (if guardRailsEnabled opts
        then js_mul (Num R) (js_add (Num 1) (js_div (lowPct_of opts) (Num 100))) else Null) \<and>
     calc_clampMax (calc res) =
       (if guardRailsEnabled opts
        then js_mul (Num R) (js_add (Num 1) (js_div (highPct_of opts) (Num 100))) else Null) \<and>
     calc_R_clamped (calc res) =
       clamp (calc_R_raw (calc res)) (calc_clampMin (calc res)) (calc_clampMax (calc res)) \<and>
     calc_jitter (calc res) =
       chooseJitter u (calc_R_clamped (calc res)) (calc_clampMin (calc res))
         (calc_clampMax (calc res))
         (case jitterRange opts of None \<Rightarrow> Num 5 | Some p \<Rightarrow> fst p)
         (case jitterRange opts of None \<Rightarrow> Num 5 | Some p \<Rightarrow> snd p) \<and>
     calc_R_final (calc res) = proposedRgpMist res \<and>
     proposedRgpMist res =
       (let R_rounded = roundToStep (js_add (calc_R_clamped (calc res)) (calc_jitter (calc res)))
              (roundStep opts);
            R_min = (if Number_isFinite (minRgpMist opts)
                     then Math_max R_rounded (minRgpMist opts) else R_rounded);
            R_max = (if Number_isFinite (maxRgpMist opts)
                     then Math_min R_min (maxRgpMist opts) else R_min)
        in Math_max (Num 1) (Math_round R_max))"
  using assms
  by (simp add: computeNewRgpFromInputs_def js_le_Num js_gt_Num js_mul_Num Let_def)

text \<open>
  The raw proposal on valid inputs is a number that is zero or more: a finite one, or
  \<open>+\<infinity>\<close> when a product or the quotient overflows. It is zero when they underflow.
\<close>

lemma raw_proposal_nonneg:
  assumes "0 < T" "0 < s" "0 < C" "0 < R"
  shows "num_le (Num 0) (js_mul (Num R) (js_div (to_double (s * T)) (Num C)))"
proof -
  have 1: "num_le (Num 0) (to_double (s * T))" using assms by (intro to_double_nonneg) simp
  then have n: "is_num (to_double (s * T))" by simp
  have 2: "num_le (Num 0) (js_div (to_double (s * T)) (Num C))"
    using num_div_nonneg [OF assms(3) 1] n by (simp add: js_div_def)
  then have "is_num (js_div (to_double (s * T)) (Num C))" using num_le_is_num by blast
  then show ?thesis
    using num_mul_nonneg [OF assms(4) 2] by (simp add: js_mul_def)
qed

text \<open>
  C1: on valid inputs the calculator returns a result whose trace holds the three
  quantities of the claim, each computed in binary64 arithmetic: \<open>C_target\<close> is the
  product \<open>s * T\<close> rounded, \<open>k\<close> is \<open>C_target / C\<close> rounded and \<open>R_raw\<close> is \<open>R_now * k\<close>
  rounded.
\<close>

theorem computeNewRgp_raw_proposal:
  assumes "0 < T" "0 < s" "s \<le> 1" "0 < C" "0 < R"
  shows "\<exists>res. computeNewRgpFromInputs u (Num T) (Num s) (Num C) (Num R) opts = Inr res \<and>
     calc_C_target (calc res) = to_double (s * T) \<and>
     calc_k (calc res) = js_div (calc_C_target (calc res)) (Num C) \<and>
     calc_R_raw (calc res) = js_mul (Num R) (calc_k (calc res))"
  using computeNewRgp_valid [OF assms, of u opts] by auto

text \<open>The literals \<open>0.005\<close> and \<open>0.31\<close>, and the two scale factors with their raw proposals.\<close>

lemma double_of_literals:
  "to_double (1 / 200) = Num (5764607523034235 / 1152921504606846976)"
  "to_double (31 / 100) = Num (5584463537939415 / 18014398509481984)"
  by code_simp+

lemma scale_factor_12:
  "js_div
     (to_double (5404319552844595 / 9007199254740992 * (1152921504606847 / 288230376151711744)))
     (Num (1152921504606847 / 576460752303423488)) = to_double (12 / 10)"
  by code_simp

lemma raw_600: "js_mul (Num 500) (to_double (12 / 10)) = Num 600"
  by code_simp

lemma scale_factor_0775:
  "js_div
     (to_double (5584463537939415 / 18014398509481984 *
        (5764607523034235 / 1152921504606846976)))
     (Num (1152921504606847 / 576460752303423488)) =
   Num (1745144855606067 / 2251799813685248)"
  by code_simp

lemma raw_387:
  "js_mul (Num 500) (Num (1745144855606067 / 2251799813685248)) =
     Num (6816972092211199 / 17592186044416)"
  by code_simp

text \<open>
  The scenario \<open>R_now = 500\<close>, \<open>s = 0.6\<close>, \<open>C = 0.002\<close>, \<open>T = 0.004\<close>: the scale factor is
  the binary64 value written \<open>1.2\<close> and the raw proposal is 600. And the rounding shows at
  \<open>T = 0.005\<close>, \<open>s = 0.31\<close>: the scale factor is \<open>0.7749999999999999\<close> and the raw proposal
  \<open>387.49999999999994\<close>, below the exact \<open>387.5\<close>.
\<close>

theorem computeNewRgp_raw_proposal_witness:
  "(\<exists>res. computeNewRgpFromInputs (1 / 2) scenario_T scenario_s scenario_C scenario_R
       scenario_options = Inr res \<and>
      calc_k (calc res) = to_double (12 / 10) \<and>
      calc_R_raw (calc res) = Num 600)
   \<and> (\<exists>res. computeNewRgpFromInputs (1 / 2) (to_double (1 / 200)) (to_double (31 / 100))
       scenario_C scenario_R scenario_options = Inr res \<and>
      calc_k (calc res) = Num (1745144855606067 / 2251799813685248) \<and>
      calc_R_raw (calc res) = Num (6816972092211199 / 17592186044416) \<and>
      js_lt (calc_R_raw (calc res)) (Num (775 / 2)))"
proof -
  let ?C = "1152921504606847 / 576460752303423488 :: rat"
  obtain res where res:
    "computeNewRgpFromInputs (1 / 2) scenario_T scenario_s scenario_C scenario_R
       scenario_options = Inr res"
    "calc_C_target (calc res) =
       to_double (5404319552844595 / 9007199254740992 * (1152921504606847 / 288230376151711744))"
    "calc_k (calc res) = js_div (calc_C_target (calc res)) (Num ?C)"
    "calc_R_raw (calc res) = js_mul (Num 500) (calc_k (calc res))"
    using computeNewRgp_raw_proposal
      [of "1152921504606847 / 288230376151711744" "5404319552844595 / 9007199254740992"
          ?C 500 "1 / 2" scenario_options]
    by (auto simp: scenario_values)
  have k: "calc_k (calc res) = to_double (12 / 10)" using res(2,3) scale_factor_12 by simp
  have r: "calc_R_raw (calc res) = Num 600" using res(4) k raw_600 by simp
  obtain res' where res':
    "computeNewRgpFromInputs (1 / 2) (to_double (1 / 200)) (to_double (31 / 100))
       scenario_C scenario_R scenario_options = Inr res'"
    "calc_C_target (calc res') =
       to_double (5584463537939415 / 18014398509481984 *
         (5764607523034235 / 1152921504606846976))"
    "calc_k (calc res') = js_div (calc_C_target (calc res')) (Num ?C)"
    "calc_R_raw (calc res') = js_mul (Num 500) (calc_k (calc res'))"
    using computeNewRgp_raw_proposal
      [of "5764607523034235 / 1152921504606846976" "5584463537939415 / 18014398509481984"
          ?C 500 "1 / 2" scenario_options]
    by (auto simp: scenario_values double_of_literals)
  have k': "calc_k (calc res') = Num (1745144855606067 / 2251799813685248)"
    using res'(2,3) scale_factor_0775 by simp
  have r': "calc_R_raw (calc res') = Num (6816972092211199 / 17592186044416)"
    using res'(4) k' raw_387 by simp
  have "js_lt (calc_R_raw (calc res')) (Num (775 / 2))" by (simp add: r' js_lt_Num)
  then show ?thesis using res(1) k r res'(1) k' r' by blast
qed

section \<open>Guard rails\<close>

text \<open>
  With both bounds \<^verbatim>\<open>null\<close> the second test of \<^verbatim>\<open>clamp\<close> succeeds on every number above
  zero: \<^verbatim>\<open>null !== undefined\<close> holds, and \<^verbatim>\<open>x > null\<close> compares \<open>x\<close> with 0.
\<close>

lemma clamp_Null:
  assumes "num_le (Num 0) v"
  shows "clamp v Null Null = (if v = Num 0 then Num 0 else Null)"
  using assms by (cases v) (auto simp: clamp_def js_lt_def js_gt_def)

text \<open>
  C2 (the code departs from the claim): with guard rails disabled the bounds are
  \<^verbatim>\<open>null\<close>, and on every valid input whose raw proposal is not zero \<^verbatim>\<open>clamp\<close> returns
  \<^verbatim>\<open>null\<close> instead of the raw proposal, so the clamped value is not \<open>R_raw\<close>. (The raw
  proposal is zero only when a product or the quotient underflows.)
\<close>

theorem guard_rails_disabled_clamps_to_null:
  assumes "0 < T" "0 < s" "s \<le> 1" "0 < C" "0 < R" "\<not> guardRailsEnabled opts"
  shows "\<exists>res. computeNewRgpFromInputs u (Num T) (Num s) (Num C) (Num R) opts = Inr res \<and>
     calc_R_raw (calc res) = js_mul (Num R) (js_div (js_mul (Num s) (Num T)) (Num C)) \<and>
     calc_clampMin (calc res) = Null \<and>
     calc_clampMax (calc res) = Null \<and>
     calc_R_clamped (calc res) = (if calc_R_raw (calc res) = Num 0 then Num 0 else Null)"
proof -
  have "num_le (Num 0) (js_mul (Num R) (js_div (to_double (s * T)) (Num C)))"
    using assms(1,2,4,5) by (rule raw_proposal_nonneg)
  then show ?thesis
    using computeNewRgp_valid [OF assms(1-5), of u opts] assms(6)
    by (auto simp: clamp_Null js_mul_Num)
qed

text \<open>The scenario's raw proposal, its draw without rails and the proposal from a sum of 0.\<close>

lemma scenario_raw:
  "js_mul (Num 500)
     (js_div (js_mul (Num (5404319552844595 / 9007199254740992))
                (Num (1152921504606847 / 288230376151711744)))
        (Num (1152921504606847 / 576460752303423488))) = Num 600"
  by code_simp

lemma scenario_raw':
  "js_mul (Num 500)
     (js_div (to_double (5404319552844595 / 9007199254740992 *
                (1152921504606847 / 288230376151711744)))
        (Num (1152921504606847 / 576460752303423488))) = Num 600"
  using scenario_raw by (simp add: js_mul_Num)

lemma jitter_no_rails_half: "chooseJitter (1 / 2) Null Null Null (Num 5) (Num 5) = Num 0"
  by code_simp

lemma final_of_zero:
  "Math_max (Num 1) (Math_round (roundToStep (js_add Null (Num 0)) (Num 1))) = Num 1"
  by code_simp

text \<open>
  The scenario with guard rails disabled and the draw \<open>u = 1/2\<close>: the raw proposal is 600,
  the clamped value is \<^verbatim>\<open>null\<close>, and the proposal is 1.
\<close>

theorem guard_rails_disabled_scenario:
  "\<exists>res. computeNewRgpFromInputs (1 / 2) scenario_T scenario_s scenario_C scenario_R
       (scenario_options\<lparr>guardRailsEnabled := False\<rparr>) = Inr res \<and>
     calc_R_raw (calc res) = Num 600 \<and>
     calc_R_clamped (calc res) = Null \<and>
     proposedRgpMist res = Num 1"
proof -
  let ?opts = "scenario_options\<lparr>guardRailsEnabled := False\<rparr>"
  let ?T = "1152921504606847 / 288230376151711744 :: rat"
  let ?s = "5404319552844595 / 9007199254740992 :: rat"
  let ?C = "1152921504606847 / 576460752303423488 :: rat"
  have off: "\<not> guardRailsEnabled ?opts" by simp
  obtain res where res:
    "computeNewRgpFromInputs (1 / 2) (Num ?T) (Num ?s) (Num ?C) (Num 500) ?opts = Inr res"
    "calc_R_raw (calc res) = js_mul (Num 500) (js_div (js_mul (Num ?s) (Num ?T)) (Num ?C))"
    "calc_R_clamped (calc res) = (if calc_R_raw (calc res) = Num 0 then Num 0 else Null)"
    using guard_rails_disabled_clamps_to_null [of ?T ?s ?C 500 ?opts "1 / 2", OF _ _ _ _ _ off]
    by auto
  have raw: "calc_R_raw (calc res) = Num 600" using res(2) scenario_raw by simp
  then have cl: "calc_R_clamped (calc res) = Null" using res(3) by simp
  obtain res' where res':
    "computeNewRgpFromInputs (1 / 2) (Num ?T) (Num ?s) (Num ?C) (Num 500) ?opts = Inr res'"
    "calc_clampMin (calc res') = Null" "calc_clampMax (calc res') = Null"
    "calc_R_clamped (calc res') =
       clamp (calc_R_raw (calc res')) (calc_clampMin (calc res')) (calc_clampMax (calc res'))"
    "calc_jitter (calc res') =
       chooseJitter (1 / 2) (calc_R_clamped (calc res')) (calc_clampMin (calc res'))
         (calc_clampMax (calc res')) (Num 5) (Num 5)"
    "proposedRgpMist res' =
       Math_max (Num 1) (Math_round
         (roundToStep (js_add (calc_R_clamped (calc res')) (calc_jitter (calc res'))) (Num 1)))"
    using computeNewRgp_valid [of ?T ?s ?C 500 "1 / 2" ?opts]
    by (auto simp: scenario_options_def Let_def)
  have same: "res' = res" using res(1) res'(1) by simp
  have "calc_jitter (calc res) = Num 0"
    using res'(5) cl res'(2,3) jitter_no_rails_half by (simp add: same)
  then have "proposedRgpMist res = Num 1"
    using res'(6) cl final_of_zero by (simp add: same)
  then show ?thesis using res(1) raw cl by (simp add: scenario_values)
qed

text \<open>Two numbers in order enclose what \<^verbatim>\<open>clamp\<close> returns for a number.\<close>

lemma clamp_in_band:
  assumes "is_num x" and "num_le a b"
  shows "js_le a (clamp x a b) \<and> js_le (clamp x a b) b"
proof -
  have ab: "is_num a" "is_num b" using assms(2) num_le_is_num by blast+
  then have nu: "a \<noteq> Undefined" "b \<noteq> Undefined" by auto
  show ?thesis
    using assms ab nu
    by (auto simp: clamp_def js_le_def js_lt_def js_gt_def num_le_refl not_num_lt
        dest: num_lt_le)
qed

text \<open>The bound for a percentage grows with the percentage.\<close>

lemma bound_mono:
  assumes "0 < R" and "lo \<le> hi"
  shows "num_le (js_mul (Num R) (js_add (Num 1) (js_div (Num lo) (Num 100))))
           (js_mul (Num R) (js_add (Num 1) (js_div (Num hi) (Num 100))))"
proof -
  have 1: "num_le (num_div (Num lo) (Num 100)) (num_div (Num hi) (Num 100))"
    using assms(2) by (intro num_div_mono) simp_all
  have 2: "num_le (num_add (Num 1) (num_div (Num lo) (Num 100)))
             (num_add (Num 1) (num_div (Num hi) (Num 100)))"
    using 1 by (rule num_add_mono)
  have n: "is_num (num_add (Num 1) (num_div (Num lo) (Num 100)))"
          "is_num (num_add (Num 1) (num_div (Num hi) (Num 100)))"
    using 2 num_le_is_num by blast+
  have "num_le (num_mul (Num R) (num_add (Num 1) (num_div (Num lo) (Num 100))))
          (num_mul (Num R) (num_add (Num 1) (num_div (Num hi) (Num 100))))"
    using assms(1) 2 by (rule num_mul_mono)
  then show ?thesis using n by (simp add: js_mul_def js_add_def js_div_def)
qed

text \<open>The bounds for the percentages \<open>[100, -50]\<close> at \<open>R_now = 500\<close>.\<close>

lemma bounds_100_m50:
  "js_mul (Num 500) (js_add (Num 1) (js_div (Num 100) (Num 100))) = Num 1000"
  "js_mul (Num 500) (js_add (Num 1) (js_div (Num (- 50)) (Num 100))) = Num 250"
  by code_simp+

text \<open>
  C3, as stated, fails: the percentages are the caller's, and with \<open>lowPct = 100\<close>,
  \<open>highPct = -50\<close> the bounds are 1000 and 250; the raw proposal 600 is below the first,
  so the clamped value is 1000, above the upper bound.
\<close>

theorem guard_rails_band_counterexample:
  "case computeNewRgpFromInputs (1 / 2) scenario_T scenario_s scenario_C scenario_R
       (scenario_options\<lparr>guardRailsPct := Some (Num 100, Num (- 50))\<rparr>) of
     Inl e \<Rightarrow> False
   | Inr res \<Rightarrow>
       calc_clampMin (calc res) = Num 1000 \<and> calc_clampMax (calc res) = Num 250 \<and>
       calc_R_clamped (calc res) = Num 1000 \<and>
       \<not> js_le (calc_R_clamped (calc res)) (calc_clampMax (calc res))"
proof -
  let ?opts = "scenario_options\<lparr>guardRailsPct := Some (Num 100, Num (- 50))\<rparr>"
  let ?T = "1152921504606847 / 288230376151711744 :: rat"
  let ?s = "5404319552844595 / 9007199254740992 :: rat"
  let ?C = "1152921504606847 / 576460752303423488 :: rat"
  have pct: "lowPct_of ?opts = Num 100" "highPct_of ?opts = Num (- 50)"
    by (simp_all add: lowPct_of_def highPct_of_def nullish_def)
  have on: "guardRailsEnabled ?opts" by (simp add: scenario_options_def)
  obtain res where res:
    "computeNewRgpFromInputs (1 / 2) (Num ?T) (Num ?s) (Num ?C) (Num 500) ?opts = Inr res"
    "calc_R_raw (calc res) = js_mul (Num 500) (js_div (to_double (?s * ?T)) (Num ?C))"
    "calc_clampMin (calc res) =
       js_mul (Num 500) (js_add (Num 1) (js_div (lowPct_of ?opts) (Num 100)))"
    "calc_clampMax (calc res) =
       js_mul (Num 500) (js_add (Num 1) (js_div (highPct_of ?opts) (Num 100)))"
    "calc_R_clamped (calc res) =
       clamp (calc_R_raw (calc res)) (calc_clampMin (calc res)) (calc_clampMax (calc res))"
    using computeNewRgp_valid [of ?T ?s ?C 500 "1 / 2" ?opts] on by auto
  have raw: "calc_R_raw (calc res) = Num 600" using res(2) scenario_raw' by simp
  have mn: "calc_clampMin (calc res) = Num 1000" using res(3) pct bounds_100_m50 by simp
  have mx: "calc_clampMax (calc res) = Num 250" using res(4) pct bounds_100_m50 by simp
  have cl: "calc_R_clamped (calc res) = Num 1000"
    using res(5) raw mn mx by (simp add: clamp_def js_lt_Num)
  show ?thesis using res(1) mn mx cl by (simp add: scenario_values js_le_Num)
qed

text \<open>
  C3, amended: with guard rails enabled and finite percentages \<open>lowPct \<le> highPct\<close>
  (given or defaulted), the clamped proposal lies between the two bounds as the code
  computes them, \<open>R_now * (1 + lowPct / 100)\<close> and \<open>R_now * (1 + highPct / 100)\<close> with
  each operation rounded to binary64.
\<close>

theorem guard_rails_band:
  assumes "0 < T" "0 < s" "s \<le> 1" "0 < C" "0 < R"
    and "guardRailsEnabled opts" "lowPct_of opts = Num lo" "highPct_of opts = Num hi" "lo \<le> hi"
  shows "\<exists>res. computeNewRgpFromInputs u (Num T) (Num s) (Num C) (Num R) opts = Inr res \<and>
     calc_clampMin (calc res) = js_mul (Num R) (js_add (Num 1) (js_div (Num lo) (Num 100))) \<and>
     calc_clampMax (calc res) = js_mul (Num R) (js_add (Num 1) (js_div (Num hi) (Num 100))) \<and>
     js_le (calc_clampMin (calc res)) (calc_R_clamped (calc res)) \<and>
     js_le (calc_R_clamped (calc res)) (calc_clampMax (calc res))"
proof -
  have band: "num_le (js_mul (Num R) (js_add (Num 1) (js_div (Num lo) (Num 100))))
                (js_mul (Num R) (js_add (Num 1) (js_div (Num hi) (Num 100))))"
    using assms(5,9) by (rule bound_mono)
  have "num_le (Num 0) (js_mul (Num R) (js_div (to_double (s * T)) (Num C)))"
    using assms(1,2,4,5) by (rule raw_proposal_nonneg)
  then have raw: "is_num (js_mul (Num R) (js_div (to_double (s * T)) (Num C)))"
    using num_le_is_num by blast
  show ?thesis
    using computeNewRgp_valid [OF assms(1-5), of u opts] assms(6-8)
      clamp_in_band [OF raw band]
    by auto
qed

text \<open>The bounds for the percentages \<open>[-30, 40]\<close> at \<open>R_now = 675\<close>.\<close>

lemma bounds_m30_40:
  "js_mul (Num 675) (js_add (Num 1) (js_div (Num (- 30)) (Num 100))) =
     Num (8312307905986559 / 17592186044416)"
  "js_mul (Num 675) (js_add (Num 1) (js_div (Num 40) (Num 100))) =
     Num (8312307905986559 / 8796093022208)"
  by code_simp+

lemma raw_202:
  "js_mul (Num 675)
     (js_div (to_double (5404319552844595 / 9007199254740992 *
                (1152921504606847 / 1152921504606846976)))
        (Num (1152921504606847 / 576460752303423488))) = Num (405 / 2)"
  by code_simp

lemma double_of_thousandth: "to_double (1 / 1000) = Num (1152921504606847 / 1152921504606846976)"
  by code_simp

text \<open>
  At \<open>R_now = 675\<close> with the percentages \<open>[-30, 40]\<close> and a raw proposal of 202.5 the
  lower bound is the binary64 value \<open>472.49999999999994\<close>, below the exact \<open>472.5\<close>, the
  upper bound is \<open>944.9999999999999\<close>, and the clamped proposal is the lower bound.
\<close>

theorem guard_rails_band_witness:
  "\<exists>res. computeNewRgpFromInputs (1 / 2) (to_double (1 / 1000)) scenario_s scenario_C (Num 675)
       (scenario_options\<lparr>guardRailsPct := Some (Num (- 30), Num 40)\<rparr>) = Inr res \<and>
     calc_clampMin (calc res) = Num (8312307905986559 / 17592186044416) \<and>
     calc_clampMax (calc res) = Num (8312307905986559 / 8796093022208) \<and>
     calc_R_clamped (calc res) = Num (8312307905986559 / 17592186044416) \<and>
     js_lt (calc_R_clamped (calc res)) (Num (945 / 2)) \<and>
     js_le (calc_clampMin (calc res)) (calc_R_clamped (calc res)) \<and>
     js_le (calc_R_clamped (calc res)) (calc_clampMax (calc res))"
proof -
  let ?opts = "scenario_options\<lparr>guardRailsPct := Some (Num (- 30), Num 40)\<rparr>"
  let ?T = "1152921504606847 / 1152921504606846976 :: rat"
  let ?s = "5404319552844595 / 9007199254740992 :: rat"
  let ?C = "1152921504606847 / 576460752303423488 :: rat"
  have pct: "lowPct_of ?opts = Num (- 30)" "highPct_of ?opts = Num 40"
    by (simp_all add: lowPct_of_def highPct_of_def nullish_def)
  have on: "guardRailsEnabled ?opts" by (simp add: scenario_options_def)
  obtain res where res:
    "computeNewRgpFromInputs (1 / 2) (Num ?T) (Num ?s) (Num ?C) (Num 675) ?opts = Inr res"
    "calc_clampMin (calc res) = js_mul (Num 675) (js_add (Num 1) (js_div (Num (- 30)) (Num 100)))"
    "calc_clampMax (calc res) = js_mul (Num 675) (js_add (Num 1) (js_div (Num 40) (Num 100)))"
    "js_le (calc_clampMin (calc res)) (calc_R_clamped (calc res))"
    "js_le (calc_R_clamped (calc res)) (calc_clampMax (calc res))"
    using guard_rails_band [of ?T ?s ?C 675 ?opts "- 30" 40 "1 / 2", OF _ _ _ _ _ on pct]
    by auto
  obtain res' where res':
    "computeNewRgpFromInputs (1 / 2) (Num ?T) (Num ?s) (Num ?C) (Num 675) ?opts = Inr res'"
    "calc_R_raw (calc res') = js_mul (Num 675) (js_div (to_double (?s * ?T)) (Num ?C))"
    "calc_R_clamped (calc res') =
       clamp (calc_R_raw (calc res')) (calc_clampMin (calc res')) (calc_clampMax (calc res'))"
    using computeNewRgp_valid [of ?T ?s ?C 675 "1 / 2" ?opts] by auto
  have same: "res' = res" using res(1) res'(1) by simp
  have mn: "calc_clampMin (calc res) = Num (8312307905986559 / 17592186044416)"
    using res(2) bounds_m30_40 by simp
  have mx: "calc_clampMax (calc res) = Num (8312307905986559 / 8796093022208)"
    using res(3) bounds_m30_40 by simp
  have raw: "calc_R_raw (calc res) = Num (405 / 2)" using res'(2) raw_202 by (simp add: same)
  have cl: "calc_R_clamped (calc res) = Num (8312307905986559 / 17592186044416)"
    using res'(3) raw mn mx by (simp add: same clamp_def js_lt_Num)
  show ?thesis
    using res(1,4,5) mn mx cl by (simp add: scenario_values double_of_thousandth js_lt_Num)
qed

section \<open>Jitter\<close>

text \<open>
  \<^verbatim>\<open>Math.random()\<close> is a binary64 value \<open>u\<close> with \<open>0 \<le> u < 1\<close>, so at most \<open>1 - 2^-53\<close>.
  Scaled by an integer \<open>n\<close> below \<open>2^53\<close> and rounded, it stays below \<open>n\<close>.
\<close>

lemma random_scale:
  assumes u0: "0 \<le> u" and u1: "u \<le> 1 - 1 / 2 ^ 53" and n1: "1 \<le> n" and n2: "n < 2 ^ 53"
  shows "\<exists>w. to_double (u * of_int n) = Num w \<and> 0 \<le> w \<and> w < of_int n"
proof (cases "u * of_int n = 0")
  case True
  then show ?thesis using n1 by simp
next
  case False
  define t where "t = u * of_int n"
  define N :: rat where "N = of_int n"
  have N1: "1 \<le> N" using n1 by (simp add: N_def)
  have tpos: "0 < t" using False u0 n1 by (simp add: t_def zero_less_mult_iff less_le)
  have "t \<le> (1 - 1 / 2 ^ 53) * N"
    unfolding t_def N_def using u1 n1 by (intro mult_right_mono) simp_all
  then have tle: "t \<le> N - N / 2 ^ 53" by (simp add: algebra_simps)
  have tN: "t < N" using tle N1 by (simp add: less_le_trans [of 0 "N / 2 ^ 53"] add_pos_pos)
  have q: "quantum t / 2 < N / 2 ^ 53"
  proof (cases "- 1022 \<le> expo t")
    case True
    then have "quantum t = 2 powi (expo t - 52)" by (simp add: quantum_def max_def)
    also have "\<dots> = 2 powi expo t / 2 powi 52" by (simp only: p2_div)
    finally have "quantum t / 2 = 2 powi expo t / 2 ^ 53" by simp
    moreover have "2 powi expo t \<le> t" using expo_bounds [of t] tpos by simp
    ultimately show ?thesis using tN by (simp add: divide_strict_right_mono)
  next
    case False
    then have "quantum t = 2 powi (- 1074)" by (simp add: quantum_def max_def)
    then have "quantum t / 2 = 2 powi (- 1075)" by (simp add: power_int_minus_divide)
    also have "\<dots> < 2 powi (- 53)" by (rule p2_strict) simp
    also have "\<dots> = 1 / 2 ^ 53" by (simp add: power_int_minus_divide)
    also have "\<dots> \<le> N / 2 ^ 53" using N1 by (simp add: divide_right_mono)
    finally show ?thesis .
  qed
  have "round_mag t - \<bar>t\<bar> \<le> \<bar>round_mag t - \<bar>t\<bar>\<bar>" by simp
  also have "\<dots> \<le> quantum t / 2" by (rule round_mag_error)
  finally have r: "round_mag t < N" using q tle tpos by simp
  have "N < of_int (2 ^ 53)" unfolding N_def using n2 by (simp only: of_int_less_iff)
  also have "\<dots> = 2 powi 53" by simp
  also have "\<dots> \<le> overflow_bound" unfolding overflow_bound_def by (rule p2_mono) simp
  finally have "\<not> overflow_bound \<le> round_mag t" using r by simp
  then have "to_double t = Num (round_mag t)" using tpos by (simp add: to_double_pos)
  then show ?thesis using r round_mag_nonneg [of t] by (simp add: t_def N_def)
qed

text \<open>
  On integers \<open>a \<le> b\<close> below \<open>2^52\<close> in magnitude, \<^verbatim>\<open>randInt\<close> is an integer of \<open>[a, b]\<close>: the
  difference, the sum and the final sum are exact.
\<close>

lemma randInt_range:
  assumes "0 \<le> u" "u \<le> 1 - 1 / 2 ^ 53" "a \<le> b" "\<bar>a\<bar> < 2 ^ 52" "\<bar>b\<bar> < 2 ^ 52"
  shows "\<exists>d. randInt u (Num (of_int a)) (Num (of_int b)) = Num (of_int d) \<and> a \<le> d \<and> d \<le> b"
proof -
  define n where "n = b - a + 1"
  have n1: "1 \<le> n" and n2: "n < 2 ^ 53" using assms(3-5) by (auto simp: n_def)
  have "js_sub (Num (of_int b)) (Num (of_int a)) = to_double (of_int (b - a))"
    by (simp add: js_sub_Num)
  also have "\<dots> = Num (of_int (b - a))" using assms(3-5) by (intro to_double_of_int) auto
  finally have 1: "js_sub (Num (of_int b)) (Num (of_int a)) = Num (of_int (b - a))" .
  have "js_add (Num (of_int (b - a))) (Num 1) = to_double (of_int n)"
    by (simp add: js_add_Num n_def)
  also have "\<dots> = Num (of_int n)" using n1 n2 by (intro to_double_of_int) auto
  finally have 2: "js_add (Num (of_int (b - a))) (Num 1) = Num (of_int n)" .
  obtain w where w: "to_double (u * of_int n) = Num w" "0 \<le> w" "w < of_int n"
    using random_scale [OF assms(1,2) n1 n2] by auto
  define f where "f = \<lfloor>w\<rfloor>"
  have f0: "0 \<le> f" using w(2) by (simp add: f_def)
  have f1: "f < n" using w(3) by (simp add: f_def floor_less_iff)
  have 3: "Math_floor (js_mul (Num u) (Num (of_int n))) = Num (of_int f)"
    by (simp add: js_mul_Num w(1) Math_floor_Num f_def)
  have "js_add (Num (of_int f)) (Num (of_int a)) = to_double (of_int (f + a))"
    by (simp add: js_add_Num)
  also have "\<dots> = Num (of_int (f + a))"
    using f0 f1 assms(3-5) by (intro to_double_of_int) (auto simp: n_def)
  finally have 4: "js_add (Num (of_int f)) (Num (of_int a)) = Num (of_int (f + a))" .
  have "randInt u (Num (of_int a)) (Num (of_int b)) = Num (of_int (f + a))"
    unfolding randInt_def 1 2 3 4 ..
  then show ?thesis using f0 f1 by (intro exI [of _ "f + a"]) (simp add: n_def)
qed

text \<open>The head room below and above a clamped value that is strictly inside its band.\<close>

lemma low_room:
  assumes "a < x"
  shows "\<exists>L. Math_max (Num (of_int (- int bl))) (Math_ceil (js_sub (Num a) (Num x))) =
              Num (of_int L) \<and>
     - int bl \<le> L \<and> L \<le> 0 \<and>
     num_le (Math_ceil (js_sub (Num a) (Num x))) (Num (of_int L)) \<and>
     (js_sub (Num a) (Num x) = Num (a - x) \<longrightarrow> a - x \<le> of_int L)"
proof -
  have "num_le (to_double (a - x)) (Num 0)" using assms by (intro to_double_nonpos) simp
  then consider "to_double (a - x) = NegInf" | r where "to_double (a - x) = Num r" "r \<le> 0"
    by (cases "to_double (a - x)") auto
  then show ?thesis
  proof cases
    case 1
    then have "Math_max (Num (of_int (- int bl))) (Math_ceil (js_sub (Num a) (Num x))) =
        Num (of_int (- int bl))"
      by (simp add: js_sub_Num Math_ceil_def Math_max_def)
    then show ?thesis
      using 1 by (intro exI [of _ "- int bl"]) (simp add: js_sub_Num Math_ceil_def)
  next
    case 2
    have c: "\<lceil>r\<rceil> \<le> 0" using 2(2) by (simp add: ceiling_le_iff)
    have "Math_max (Num (of_int (- int bl))) (Math_ceil (js_sub (Num a) (Num x))) =
        Num (of_int (max (- int bl) \<lceil>r\<rceil>))"
      by (simp add: js_sub_Num 2(1) Math_ceil_Num Math_max_Num of_int_max [symmetric]
          del: of_int_minus of_int_of_nat_eq)
    moreover have "r \<le> of_int (max (- int bl) \<lceil>r\<rceil>)"
      using le_of_int_ceiling [of r] by (simp add: max_def del: of_int_minus) linarith
    ultimately show ?thesis
      using c 2
      by (intro exI [of _ "max (- int bl) \<lceil>r\<rceil>"])
         (auto simp: js_sub_Num Math_ceil_Num simp del: of_int_minus of_int_of_nat_eq)
  qed
qed

lemma high_room:
  assumes "x < b"
  shows "\<exists>H. Math_min (Num (of_int (int bh))) (Math_floor (js_sub (Num b) (Num x))) =
              Num (of_int H) \<and>
     0 \<le> H \<and> H \<le> int bh \<and>
     num_le (Num (of_int H)) (Math_floor (js_sub (Num b) (Num x))) \<and>
     (js_sub (Num b) (Num x) = Num (b - x) \<longrightarrow> of_int H \<le> b - x)"
proof -
  have "num_le (Num 0) (to_double (b - x))" using assms by (intro to_double_nonneg) simp
  then consider "to_double (b - x) = PosInf" | r where "to_double (b - x) = Num r" "0 \<le> r"
    by (cases "to_double (b - x)") auto
  then show ?thesis
  proof cases
    case 1
    then have "Math_min (Num (of_int (int bh))) (Math_floor (js_sub (Num b) (Num x))) =
        Num (of_int (int bh))"
      by (simp add: js_sub_Num Math_floor_def Math_min_def)
    then show ?thesis
      using 1 by (intro exI [of _ "int bh"]) (simp add: js_sub_Num Math_floor_def)
  next
    case 2
    have c: "0 \<le> \<lfloor>r\<rfloor>" using 2(2) by simp
    have "Math_min (Num (of_int (int bh))) (Math_floor (js_sub (Num b) (Num x))) =
        Num (of_int (min (int bh) \<lfloor>r\<rfloor>))"
      by (simp add: js_sub_Num 2(1) Math_floor_Num Math_min_Num of_int_min [symmetric]
          del: of_int_of_nat_eq)
    moreover have "of_int (min (int bh) \<lfloor>r\<rfloor>) \<le> r"
      using of_int_floor_le [of r] by (simp add: min_def) linarith
    ultimately show ?thesis
      using c 2
      by (intro exI [of _ "min (int bh) \<lfloor>r\<rfloor>"])
         (auto simp: js_sub_Num Math_floor_Num simp del: of_int_of_nat_eq)
  qed
qed

lemma chooseJitter_Num:
  "chooseJitter u (Num x) (Num a) (Num b) (Num l) (Num h) =
     (if x = a then randInt u (Num 0) (Num h)
      else if x = b then randInt u (Num (- l)) (Num 0)
      else
        let lo = Math_max (Num (- l)) (Math_ceil (js_sub (Num a) (Num x)));
            hi = Math_min (Num h) (Math_floor (js_sub (Num b) (Num x)))
        in if js_gt lo hi then Num 0 else randInt u lo hi)"
  by (simp add: chooseJitter_def loose_eq_null_def strict_eq_def js_neg_Num Let_def)

lemma sum_ge_bound:
  assumes "is_double a" and "a \<le> x + of_int d"
  shows "js_le (Num a) (js_add (Num x) (Num (of_int d)))"
  using to_double_mono [OF assms(2)] assms(1) by (simp add: is_double_def js_le_def js_add_Num)

lemma sum_le_bound:
  assumes "is_double b" and "x + of_int d \<le> b"
  shows "js_le (js_add (Num x) (Num (of_int d))) (Num b)"
  using to_double_mono [OF assms(2)] assms(1) by (simp add: is_double_def js_le_def js_add_Num)

lemma chooseJitter_at_min:
  assumes "0 \<le> u" "u \<le> 1 - 1 / 2 ^ 53" "bh < 2 ^ 52"
  shows "\<exists>d. chooseJitter u (Num a) (Num a) (Num b) (Num (of_nat bl)) (Num (of_nat bh)) =
              Num (of_int d) \<and> 0 \<le> d \<and> d \<le> int bh"
proof -
  have "\<bar>int bh\<bar> < 2 ^ 52" using assms(3) by (simp add: of_nat_less_iff [of bh "2 ^ 52", where ?'a = int, simplified])
  then show ?thesis
    using randInt_range [OF assms(1,2), of 0 "int bh"] by (simp add: chooseJitter_Num)
qed

lemma chooseJitter_at_max:
  assumes "0 \<le> u" "u \<le> 1 - 1 / 2 ^ 53" "bl < 2 ^ 52" "x \<noteq> a"
  shows "\<exists>d. chooseJitter u (Num x) (Num a) (Num x) (Num (of_nat bl)) (Num (of_nat bh)) =
              Num (of_int d) \<and> - int bl \<le> d \<and> d \<le> 0"
proof -
  have "\<bar>- int bl\<bar> < 2 ^ 52" using assms(3) by (simp add: of_nat_less_iff [of bl "2 ^ 52", where ?'a = int, simplified])
  then show ?thesis
    using randInt_range [OF assms(1,2), of "- int bl" 0] assms(4) by (simp add: chooseJitter_Num)
qed

lemma chooseJitter_interior:
  assumes "0 \<le> u" "u \<le> 1 - 1 / 2 ^ 53" "bl < 2 ^ 52" "bh < 2 ^ 52" "a < x" "x < b"
  shows "\<exists>d. chooseJitter u (Num x) (Num a) (Num b) (Num (of_nat bl)) (Num (of_nat bh)) =
              Num (of_int d) \<and> - int bl \<le> d \<and> d \<le> int bh \<and>
     num_le (Math_ceil (js_sub (Num a) (Num x))) (Num (of_int d)) \<and>
     num_le (Num (of_int d)) (Math_floor (js_sub (Num b) (Num x))) \<and>
     (js_sub (Num a) (Num x) = Num (a - x) \<longrightarrow> a \<le> x + of_int d) \<and>
     (js_sub (Num b) (Num x) = Num (b - x) \<longrightarrow> x + of_int d \<le> b) \<and>
     \<not> js_gt (Math_max (js_neg (Num (of_nat bl))) (Math_ceil (js_sub (Num a) (Num x))))
          (Math_min (Num (of_nat bh)) (Math_floor (js_sub (Num b) (Num x))))"
proof -
  obtain L where L:
    "Math_max (Num (of_int (- int bl))) (Math_ceil (js_sub (Num a) (Num x))) = Num (of_int L)"
    "- int bl \<le> L" "L \<le> 0"
    "num_le (Math_ceil (js_sub (Num a) (Num x))) (Num (of_int L))"
    "js_sub (Num a) (Num x) = Num (a - x) \<longrightarrow> a - x \<le> of_int L"
    using low_room [OF assms(5), of bl] by blast
  obtain H where H:
    "Math_min (Num (of_int (int bh))) (Math_floor (js_sub (Num b) (Num x))) = Num (of_int H)"
    "0 \<le> H" "H \<le> int bh"
    "num_le (Num (of_int H)) (Math_floor (js_sub (Num b) (Num x)))"
    "js_sub (Num b) (Num x) = Num (b - x) \<longrightarrow> of_int H \<le> b - x"
    using high_room [OF assms(6), of bh] by blast
  have bl: "int bl < 2 ^ 52" and bh: "int bh < 2 ^ 52"
    using assms(3,4) by (simp_all add: of_nat_less_iff [of _ "2 ^ 52", where ?'a = int, simplified])
  have "\<bar>L\<bar> < 2 ^ 52" "\<bar>H\<bar> < 2 ^ 52" "L \<le> H" using L(2,3) H(2,3) bl bh by auto
  then obtain d where d:
    "randInt u (Num (of_int L)) (Num (of_int H)) = Num (of_int d)" "L \<le> d" "d \<le> H"
    using randInt_range [OF assms(1,2), of L H] by blast
  have gt: "\<not> js_gt (Num (of_int L)) (Num (of_int H))"
    using L(3) H(2) by (simp add: js_gt_Num)
  have l': "Math_max (Num (- of_nat bl)) (Math_ceil (js_sub (Num a) (Num x))) = Num (of_int L)"
    using L(1) by simp
  have h': "Math_min (Num (of_nat bh)) (Math_floor (js_sub (Num b) (Num x))) = Num (of_int H)"
    using H(1) by simp
  have cj: "chooseJitter u (Num x) (Num a) (Num b) (Num (of_nat bl)) (Num (of_nat bh)) =
      Num (of_int d)"
    using assms(5,6) gt d(1) by (simp add: chooseJitter_Num l' h' Let_def)
  have 1: "num_le (Math_ceil (js_sub (Num a) (Num x))) (Num (of_int d))"
    using L(4) d(2) by (intro num_le_trans [OF L(4)]) simp
  have 2: "num_le (Num (of_int d)) (Math_floor (js_sub (Num b) (Num x)))"
    using H(4) d(3) by (intro num_le_trans [OF _ H(4)]) simp
  have Ld: "(of_int L :: rat) \<le> of_int d" using d(2) by (simp only: of_int_le_iff)
  have dH: "(of_int d :: rat) \<le> of_int H" using d(3) by (simp only: of_int_le_iff)
  have 3: "js_sub (Num a) (Num x) = Num (a - x) \<longrightarrow> a \<le> x + of_int d"
    using L(5) Ld by auto
  have 4: "js_sub (Num b) (Num x) = Num (b - x) \<longrightarrow> x + of_int d \<le> b"
    using H(5) dH by auto
  have 5: "\<not> js_gt (Math_max (js_neg (Num (of_nat bl))) (Math_ceil (js_sub (Num a) (Num x))))
      (Math_min (Num (of_nat bh)) (Math_floor (js_sub (Num b) (Num x))))"
    using gt by (simp add: js_neg_Num l' h')
  show ?thesis
    using cj 1 2 3 4 5 d(2,3) L(2) H(3) by (intro exI [of _ d]) simp
qed

text \<open>A run of the calculator on the scenario's four required inputs.\<close>

lemma scenario_run:
  "\<exists>res. computeNewRgpFromInputs u scenario_T scenario_s scenario_C scenario_R opts = Inr res \<and>
     calc_R_raw (calc res) = Num 600 \<and>
     calc_clampMin (calc res) =
       (if guardRailsEnabled opts
        then js_mul (Num 500) (js_add (Num 1) (js_div (lowPct_of opts) (Num 100))) else Null) \<and>
     calc_clampMax (calc res) =
       (if guardRailsEnabled opts
        then js_mul (Num 500) (js_add (Num 1) (js_div (highPct_of opts) (Num 100))) else Null) \<and>
     calc_R_clamped (calc res) =
       clamp (Num 600) (calc_clampMin (calc res)) (calc_clampMax (calc res)) \<and>
     calc_jitter (calc res) =
       chooseJitter u (calc_R_clamped (calc res)) (calc_clampMin (calc res))
         (calc_clampMax (calc res))
         (case jitterRange opts of None \<Rightarrow> Num 5 | Some p \<Rightarrow> fst p)
         (case jitterRange opts of None \<Rightarrow> Num 5 | Some p \<Rightarrow> snd p) \<and>
     proposedRgpMist res =
       (let R_rounded = roundToStep (js_add (calc_R_clamped (calc res)) (calc_jitter (calc res)))
              (roundStep opts);
            R_min = (if Number_isFinite (minRgpMist opts)
                     then Math_max R_rounded (minRgpMist opts) else R_rounded);
            R_max = (if Number_isFinite (maxRgpMist opts)
                     then Math_min R_min (maxRgpMist opts) else R_min)
        in Math_max (Num 1) (Math_round R_max))"
proof -
  let ?T = "1152921504606847 / 288230376151711744 :: rat"
  let ?s = "5404319552844595 / 9007199254740992 :: rat"
  let ?C = "1152921504606847 / 576460752303423488 :: rat"
  obtain res where res:
    "computeNewRgpFromInputs u (Num ?T) (Num ?s) (Num ?C) (Num 500) opts = Inr res"
    "calc_R_raw (calc res) = js_mul (Num 500) (js_div (to_double (?s * ?T)) (Num ?C))"
    "calc_clampMin (calc res) =
       (if guardRailsEnabled opts
        then js_mul (Num 500) (js_add (Num 1) (js_div (lowPct_of opts) (Num 100))) else Null)"
    "calc_clampMax (calc res) =
       (if guardRailsEnabled opts
        then js_mul (Num 500) (js_add (Num 1) (js_div (highPct_of opts) (Num 100))) else Null)"
    "calc_R_clamped (calc res) =
       clamp (calc_R_raw (calc res)) (calc_clampMin (calc res)) (calc_clampMax (calc res))"
    "calc_jitter (calc res) =
       chooseJitter u (calc_R_clamped (calc res)) (calc_clampMin (calc res))
         (calc_clampMax (calc res))
         (case jitterRange opts of None \<Rightarrow> Num 5 | Some p \<Rightarrow> fst p)
         (case jitterRange opts of None \<Rightarrow> Num 5 | Some p \<Rightarrow> snd p)"
    "proposedRgpMist res =
       (let R_rounded = roundToStep (js_add (calc_R_clamped (calc res)) (calc_jitter (calc res)))
              (roundStep opts);
            R_min = (if Number_isFinite (minRgpMist opts)
                     then Math_max R_rounded (minRgpMist opts) else R_rounded);
            R_max = (if Number_isFinite (maxRgpMist opts)
                     then Math_min R_min (maxRgpMist opts) else R_min)
        in Math_max (Num 1) (Math_round R_max))"
    using computeNewRgp_valid [of ?T ?s ?C 500 u opts] by auto
  have raw: "calc_R_raw (calc res) = Num 600" using res(2) scenario_raw' by simp
  show ?thesis
    apply (rule exI [of _ res])
    using res(1,3,4,6,7) res(5) [unfolded raw] raw
    by (simp add: scenario_values)
qed

text \<open>The band for the percentages \<open>[-1, 1]\<close> at \<open>R_now = 500\<close> and a draw at its maximum.\<close>

lemma bounds_pm1:
  "js_mul (Num 500) (js_add (Num 1) (js_div (Num (- 1)) (Num 100))) = Num 495"
  "js_mul (Num 500) (js_add (Num 1) (js_div (Num 1) (Num 100))) = Num 505"
  by code_simp+

lemma jitter_at_505: "chooseJitter (1 / 4) (Num 505) (Num 495) (Num 505) (Num 20) (Num 20) = Num (- 15)"
  by code_simp

lemma final_of_490:
  "js_add (Num 505) (Num (- 15)) = Num 490"
  "Math_max (Num 1) (Math_round (roundToStep (Num 490) (Num 1))) = Num 490"
  by code_simp+

text \<open>
  A band whose upper bound is one unit in the last place above 3: \<open>R_now = 1\<close> with the
  percentages \<open>[-100, 200 + 2^-45]\<close> gives the bounds 0 and \<open>3 + 2^-51\<close>, and the raw
  proposal is \<open>3 * 2^-52\<close>.
\<close>

lemma ulp_raw:
  "js_mul (Num 1) (js_div (to_double (3 / 4503599627370496)) (Num 1)) =
     Num (3 / 4503599627370496)"
  by code_simp

lemma ulp_bounds:
  "js_mul (Num 1) (js_add (Num 1) (js_div (Num (- 100)) (Num 100))) = Num 0"
  "js_mul (Num 1)
     (js_add (Num 1) (js_div (Num (7036874417766401 / 35184372088832)) (Num 100))) =
   Num (6755399441055745 / 2251799813685248)"
  by code_simp+

lemma ulp_jitter:
  "chooseJitter (3 / 4) (Num (3 / 4503599627370496)) (Num 0)
     (Num (6755399441055745 / 2251799813685248)) (Num 5) (Num 5) = Num 3"
  by code_simp

lemma ulp_sum:
  "js_add (Num (3 / 4503599627370496)) (Num 3) = Num (3377699720527873 / 1125899906842624)"
  by code_simp

text \<open>
  C4, as stated, fails in two ways.
  \<^item> In a narrow band: with \<open>R_now = 500\<close>, guard rails \<open>[-1, 1]\<close> per cent and jitter
    magnitudes \<open>[20, 20]\<close> the band is \<open>[495, 505]\<close>; the raw proposal 600 is clamped to 505,
    the one-sided draw at the maximum is \<open>-15\<close> for \<open>u = 1/4\<close>, and \<open>505 - 15 = 490\<close> is
    below the band. The proposal is 490.
  \<^item> By rounding, strictly inside the band: with \<open>T = 3 * 2^-52\<close>, \<open>s = 1\<close>, \<open>C = 1\<close>,
    \<open>R_now = 1\<close> and guard rails \<open>[-100, 200 + 2^-45]\<close> the band is \<open>[0, 3 + 2^-51]\<close> and the
    clamped value \<open>3 * 2^-52\<close>; the head room \<open>clampMax - R_clamped\<close> rounds up to 3, the
    draw for \<open>u = 3/4\<close> is 3, and \<open>R_clamped + 3\<close> rounds to \<open>3 + 2^-50\<close>, above the band.
\<close>

theorem chooseJitter_band_counterexample:
  "(case computeNewRgpFromInputs (1 / 4) scenario_T scenario_s scenario_C scenario_R
       (scenario_options\<lparr>guardRailsPct := Some (Num (- 1), Num 1),
          jitterRange := Some (Num 20, Num 20)\<rparr>) of
     Inl e \<Rightarrow> False
   | Inr res \<Rightarrow>
       calc_clampMin (calc res) = Num 495 \<and> calc_clampMax (calc res) = Num 505 \<and>
       calc_R_clamped (calc res) = Num 505 \<and> calc_jitter (calc res) = Num (- 15) \<and>
       js_lt (js_add (calc_R_clamped (calc res)) (calc_jitter (calc res)))
         (calc_clampMin (calc res)) \<and>
       proposedRgpMist res = Num 490)
   \<and> (case computeNewRgpFromInputs (3 / 4) (Num (3 / 4503599627370496)) (Num 1) (Num 1) (Num 1)
       (scenario_options\<lparr>guardRailsPct :=
          Some (Num (- 100), Num (7036874417766401 / 35184372088832))\<rparr>) of
     Inl e \<Rightarrow> False
   | Inr res \<Rightarrow>
       calc_clampMin (calc res) = Num 0 \<and>
       calc_clampMax (calc res) = Num (6755399441055745 / 2251799813685248) \<and>
       calc_R_clamped (calc res) = Num (3 / 4503599627370496) \<and>
       calc_jitter (calc res) = Num 3 \<and>
       js_gt (js_add (calc_R_clamped (calc res)) (calc_jitter (calc res)))
         (calc_clampMax (calc res)))"
proof (intro conjI)
  let ?opts = "scenario_options\<lparr>guardRailsPct := Some (Num (- 1), Num 1),
                 jitterRange := Some (Num 20, Num 20)\<rparr>"
  have pct: "lowPct_of ?opts = Num (- 1)" "highPct_of ?opts = Num 1"
    by (simp_all add: lowPct_of_def highPct_of_def nullish_def)
  have o: "guardRailsEnabled ?opts" "jitterRange ?opts = Some (Num 20, Num 20)"
    "roundStep ?opts = Num 1" "minRgpMist ?opts = Undefined" "maxRgpMist ?opts = Undefined"
    by (simp_all add: scenario_options_def)
  obtain res where res:
    "computeNewRgpFromInputs (1 / 4) scenario_T scenario_s scenario_C scenario_R ?opts = Inr res"
    "calc_clampMin (calc res) = Num 495" "calc_clampMax (calc res) = Num 505"
    "calc_R_clamped (calc res) =
       clamp (Num 600) (calc_clampMin (calc res)) (calc_clampMax (calc res))"
    "calc_jitter (calc res) =
       chooseJitter (1 / 4) (calc_R_clamped (calc res)) (calc_clampMin (calc res))
         (calc_clampMax (calc res)) (Num 20) (Num 20)"
    "proposedRgpMist res =
       Math_max (Num 1) (Math_round
         (roundToStep (js_add (calc_R_clamped (calc res)) (calc_jitter (calc res))) (Num 1)))"
    using scenario_run [of "1 / 4" ?opts] by (auto simp: o pct bounds_pm1 Let_def)
  have cl: "calc_R_clamped (calc res) = Num 505"
    using res(4) by (simp add: res(2,3) clamp_def js_lt_Num js_gt_Num)
  have ji: "calc_jitter (calc res) = Num (- 15)"
    using res(5) by (simp add: cl res(2,3) jitter_at_505)
  have pr: "proposedRgpMist res = Num 490" using res(6) by (simp add: cl ji final_of_490)
  show "case computeNewRgpFromInputs (1 / 4) scenario_T scenario_s scenario_C scenario_R ?opts of
     Inl e \<Rightarrow> False
   | Inr res \<Rightarrow>
       calc_clampMin (calc res) = Num 495 \<and> calc_clampMax (calc res) = Num 505 \<and>
       calc_R_clamped (calc res) = Num 505 \<and> calc_jitter (calc res) = Num (- 15) \<and>
       js_lt (js_add (calc_R_clamped (calc res)) (calc_jitter (calc res)))
         (calc_clampMin (calc res)) \<and>
       proposedRgpMist res = Num 490"
    using res(1,2,3) cl ji pr by (simp add: final_of_490 js_lt_Num)
next
  let ?opts = "scenario_options\<lparr>guardRailsPct :=
          Some (Num (- 100), Num (7036874417766401 / 35184372088832))\<rparr>"
  have pct: "lowPct_of ?opts = Num (- 100)"
    "highPct_of ?opts = Num (7036874417766401 / 35184372088832)"
    by (simp_all add: lowPct_of_def highPct_of_def nullish_def)
  have o: "guardRailsEnabled ?opts" "jitterRange ?opts = Some (Num 5, Num 5)"
    by (simp_all add: scenario_options_def)
  obtain res where res:
    "computeNewRgpFromInputs (3 / 4) (Num (3 / 4503599627370496)) (Num 1) (Num 1) (Num 1) ?opts =
       Inr res"
    "calc_R_raw (calc res) = Num (3 / 4503599627370496)"
    "calc_clampMin (calc res) = Num 0"
    "calc_clampMax (calc res) = Num (6755399441055745 / 2251799813685248)"
    "calc_R_clamped (calc res) =
       clamp (calc_R_raw (calc res)) (calc_clampMin (calc res)) (calc_clampMax (calc res))"
    "calc_jitter (calc res) =
       chooseJitter (3 / 4) (calc_R_clamped (calc res)) (calc_clampMin (calc res))
         (calc_clampMax (calc res)) (Num 5) (Num 5)"
    using computeNewRgp_valid [of "3 / 4503599627370496" 1 1 1 "3 / 4" ?opts]
    by (auto simp: o pct ulp_raw ulp_bounds)
  have cl: "calc_R_clamped (calc res) = Num (3 / 4503599627370496)"
    using res(5) by (simp add: res(2,3,4) clamp_def js_lt_Num js_gt_Num)
  have ji: "calc_jitter (calc res) = Num 3" using res(6) by (simp add: cl res(3,4) ulp_jitter)
  show "case computeNewRgpFromInputs (3 / 4) (Num (3 / 4503599627370496)) (Num 1) (Num 1) (Num 1)
       ?opts of
     Inl e \<Rightarrow> False
   | Inr res \<Rightarrow>
       calc_clampMin (calc res) = Num 0 \<and>
       calc_clampMax (calc res) = Num (6755399441055745 / 2251799813685248) \<and>
       calc_R_clamped (calc res) = Num (3 / 4503599627370496) \<and>
       calc_jitter (calc res) = Num 3 \<and>
       js_gt (js_add (calc_R_clamped (calc res)) (calc_jitter (calc res)))
         (calc_clampMax (calc res))"
    using res(1,3,4) cl ji by (simp add: ulp_sum js_gt_Num)
qed

text \<open>
  C4, amended. Let the band \<open>[clampMin, clampMax]\<close> be finite and hold the clamped value,
  the jitter magnitudes be non-negative integers below \<open>2^52\<close> and the draw a binary64
  value of \<open>[0, 1)\<close>. Then \<open>drawn\<close> is an integer of \<open>[-baseLow, baseHigh]\<close>, and
  \<^item> at the minimum clamp it is zero or more, so the sum \<open>R_clamped + drawn\<close> is not below
    \<open>clampMin\<close>;
  \<^item> at the maximum clamp, when that is not the minimum clamp as well (the minimum is
    tested first), it is zero or less, so the sum is not above \<open>clampMax\<close>;
  \<^item> strictly inside the band it lies between the two head rooms
    \<open>ceil(clampMin - R_clamped)\<close> and \<open>floor(clampMax - R_clamped)\<close>, which enclose zero; the
    intersected range is not empty, so the branch that returns 0 is not taken; and the sum
    stays in the band when the two subtractions are exact.
  A draw at one clamp may leave the band on the other side.
\<close>

theorem chooseJitter_band:
  assumes "0 \<le> u" "u \<le> 1 - 1 / 2 ^ 53" "bl < 2 ^ 52" "bh < 2 ^ 52" "a \<le> x" "x \<le> b"
    and "is_double a" "is_double b"
  shows "\<exists>d. chooseJitter u (Num x) (Num a) (Num b) (Num (of_nat bl)) (Num (of_nat bh)) =
              Num (of_int d) \<and>
     - int bl \<le> d \<and> d \<le> int bh \<and>
     (x = a \<longrightarrow> 0 \<le> d \<and> js_le (Num a) (js_add (Num x) (Num (of_int d)))) \<and>
     (x = b \<and> x \<noteq> a \<longrightarrow> d \<le> 0 \<and> js_le (js_add (Num x) (Num (of_int d))) (Num b)) \<and>
     (a < x \<and> x < b \<longrightarrow>
        num_le (Math_ceil (js_sub (Num a) (Num x))) (Num (of_int d)) \<and>
        num_le (Num (of_int d)) (Math_floor (js_sub (Num b) (Num x))) \<and>
        num_le (Math_ceil (js_sub (Num a) (Num x))) (Num 0) \<and>
        num_le (Num 0) (Math_floor (js_sub (Num b) (Num x))) \<and>
        \<not> js_gt (Math_max (js_neg (Num (of_nat bl))) (Math_ceil (js_sub (Num a) (Num x))))
             (Math_min (Num (of_nat bh)) (Math_floor (js_sub (Num b) (Num x))))) \<and>
     (a < x \<and> x < b \<and> js_sub (Num a) (Num x) = Num (a - x) \<and>
      js_sub (Num b) (Num x) = Num (b - x) \<longrightarrow>
        js_le (Num a) (js_add (Num x) (Num (of_int d))) \<and>
        js_le (js_add (Num x) (Num (of_int d))) (Num b))"
proof -
  consider "x = a" | "x = b" "x \<noteq> a" | "a < x" "x < b" using assms(5,6) by force
  then show ?thesis
  proof cases
    case 1
    obtain d where d:
      "chooseJitter u (Num a) (Num a) (Num b) (Num (of_nat bl)) (Num (of_nat bh)) = Num (of_int d)"
      "0 \<le> d" "d \<le> int bh"
      using chooseJitter_at_min [OF assms(1,2,4)] by blast
    have "a \<le> a + of_int d" using d(2) by simp
    then have "js_le (Num a) (js_add (Num a) (Num (of_int d)))"
      using assms(7) by (rule sum_ge_bound [rotated])
    then show ?thesis using 1 d by (intro exI [of _ d]) auto
  next
    case 2
    obtain d where d:
      "chooseJitter u (Num x) (Num a) (Num x) (Num (of_nat bl)) (Num (of_nat bh)) = Num (of_int d)"
      "- int bl \<le> d" "d \<le> 0"
      using chooseJitter_at_max [OF assms(1,2,3) 2(2)] by blast
    have "b + of_int d \<le> b" using d(3) by simp
    then have "js_le (js_add (Num b) (Num (of_int d))) (Num b)"
      using assms(8) by (rule sum_le_bound [rotated])
    then show ?thesis using 2 d by (intro exI [of _ d]) auto
  next
    case 3
    obtain d where d:
      "chooseJitter u (Num x) (Num a) (Num b) (Num (of_nat bl)) (Num (of_nat bh)) = Num (of_int d)"
      "- int bl \<le> d" "d \<le> int bh"
      "num_le (Math_ceil (js_sub (Num a) (Num x))) (Num (of_int d))"
      "num_le (Num (of_int d)) (Math_floor (js_sub (Num b) (Num x)))"
      "js_sub (Num a) (Num x) = Num (a - x) \<longrightarrow> a \<le> x + of_int d"
      "js_sub (Num b) (Num x) = Num (b - x) \<longrightarrow> x + of_int d \<le> b"
      "\<not> js_gt (Math_max (js_neg (Num (of_nat bl))) (Math_ceil (js_sub (Num a) (Num x))))
           (Math_min (Num (of_nat bh)) (Math_floor (js_sub (Num b) (Num x))))"
      using chooseJitter_interior [OF assms(1,2,3,4) 3] by blast
    have lo0: "num_le (Math_ceil (js_sub (Num a) (Num x))) (Num 0)"
      using low_room [OF 3(1), of 0] by (auto intro: num_le_trans)
    have hi0: "num_le (Num 0) (Math_floor (js_sub (Num b) (Num x)))"
      using high_room [OF 3(2), of 0] by (auto intro: num_le_trans)
    have in1: "js_sub (Num a) (Num x) = Num (a - x) \<longrightarrow>
        js_le (Num a) (js_add (Num x) (Num (of_int d)))"
      using d(6) assms(7) by (auto intro: sum_ge_bound)
    have in2: "js_sub (Num b) (Num x) = Num (b - x) \<longrightarrow>
        js_le (js_add (Num x) (Num (of_int d))) (Num b)"
      using d(7) assms(8) by (auto intro: sum_le_bound)
    show ?thesis using 3 d(1-5) d(8) lo0 hi0 in1 in2 by (intro exI [of _ d]) auto
  qed
qed

text \<open>
  The band \<open>[300, 700]\<close> with magnitudes \<open>[5, 5]\<close> and the draw \<open>u = 1/4\<close>: strictly inside
  (at 600), at the minimum clamp and at the maximum clamp.
\<close>

theorem chooseJitter_band_witness:
  "(\<exists>d. chooseJitter (1 / 4) (Num 600) (Num 300) (Num 700) (Num 5) (Num 5) = Num (of_int d) \<and>
      - 5 \<le> d \<and> d \<le> 5 \<and>
      js_le (Num 300) (js_add (Num 600) (Num (of_int d))) \<and>
      js_le (js_add (Num 600) (Num (of_int d))) (Num 700))
   \<and> (\<exists>d. chooseJitter (1 / 4) (Num 300) (Num 300) (Num 700) (Num 5) (Num 5) = Num (of_int d) \<and>
      0 \<le> d \<and> d \<le> 5 \<and>
      js_le (Num 300) (js_add (Num 300) (Num (of_int d))))
   \<and> (\<exists>d. chooseJitter (1 / 4) (Num 700) (Num 300) (Num 700) (Num 5) (Num 5) = Num (of_int d) \<and>
      - 5 \<le> d \<and> d \<le> 0 \<and>
      js_le (js_add (Num 700) (Num (of_int d))) (Num 700))"
proof -
  have u: "(0::rat) \<le> 1 / 4" "(1 / 4 :: rat) \<le> 1 - 1 / 2 ^ 53" by simp_all
  have m: "(5::nat) < 2 ^ 52" by simp
  have a: "is_double 300" using is_double_of_int [of 300] by simp
  have b: "is_double 700" using is_double_of_int [of 700] by simp
  have lo: "js_sub (Num 300) (Num 600) = Num (300 - 600)"
    using to_double_of_int [of "- 300"] by (simp add: js_sub_Num)
  have hi: "js_sub (Num 700) (Num 600) = Num (700 - 600)"
    using to_double_of_int [of 100] by (simp add: js_sub_Num)
  have 1: "\<exists>d. chooseJitter (1 / 4) (Num 600) (Num 300) (Num 700) (Num 5) (Num 5) = Num (of_int d) \<and>
      - 5 \<le> d \<and> d \<le> 5 \<and>
      js_le (Num 300) (js_add (Num 600) (Num (of_int d))) \<and>
      js_le (js_add (Num 600) (Num (of_int d))) (Num 700)"
    using chooseJitter_band [OF u m m _ _ a b, of 600] lo hi by auto
  have 2: "\<exists>d. chooseJitter (1 / 4) (Num 300) (Num 300) (Num 700) (Num 5) (Num 5) = Num (of_int d) \<and>
      0 \<le> d \<and> d \<le> 5 \<and>
      js_le (Num 300) (js_add (Num 300) (Num (of_int d)))"
    using chooseJitter_band [OF u m m _ _ a b, of 300] by auto
  have 3: "\<exists>d. chooseJitter (1 / 4) (Num 700) (Num 300) (Num 700) (Num 5) (Num 5) = Num (of_int d) \<and>
      - 5 \<le> d \<and> d \<le> 0 \<and>
      js_le (js_add (Num 700) (Num (of_int d))) (Num 700)"
    using chooseJitter_band [OF u m m _ _ a b, of 700] by auto
  show ?thesis using 1 2 3 by blast
qed

section \<open>Rounding and the absolute bounds\<close>

text \<open>A draw between moderate bounds is a finite number.\<close>

lemma randInt_finite:
  assumes "0 \<le> u" "u \<le> 1" "\<bar>a\<bar> \<le> 2 ^ 53" "\<bar>b\<bar> \<le> 2 ^ 53"
  shows "\<exists>d. randInt u (Num a) (Num b) = Num d"
proof -
  have "\<bar>b - a\<bar> \<le> 2 powi 54" using assms(3,4) by simp
  then obtain c where c: "to_double (b - a) = Num c" "\<bar>c\<bar> \<le> 2 powi 54"
    using to_double_bounded [of "b - a" 54] by auto
  have "\<bar>c + 1\<bar> \<le> 2 powi 55" using c(2) by simp
  then obtain c2 where c2: "to_double (c + 1) = Num c2" "\<bar>c2\<bar> \<le> 2 powi 55"
    using to_double_bounded [of "c + 1" 55] by auto
  have "\<bar>u * c2\<bar> \<le> 1 * \<bar>c2\<bar>"
    unfolding abs_mult using assms(1,2) by (intro mult_right_mono) simp_all
  then have "\<bar>u * c2\<bar> \<le> 2 powi 55" using c2(2) by simp
  then obtain w where w: "to_double (u * c2) = Num w" "\<bar>w\<bar> \<le> 2 powi 55"
    using to_double_bounded [of "u * c2" 55] by auto
  define F :: rat where "F = of_int \<lfloor>w\<rfloor>"
  have f: "F \<le> w" "w < F + 1" unfolding F_def by linarith+
  have "\<bar>F + a\<bar> \<le> 2 powi 57"
    using f w(2) assms(3) by (simp add: abs_le_iff)
  then have "\<bar>of_int \<lfloor>w\<rfloor> + a\<bar> \<le> 2 powi 57" by (simp only: F_def)
  then obtain d where d: "to_double (of_int \<lfloor>w\<rfloor> + a) = Num d"
    using to_double_bounded [of "of_int \<lfloor>w\<rfloor> + a" 57] by auto
  show ?thesis
    by (simp add: randInt_def js_sub_Num js_add_Num js_mul_Num Math_floor_Num c(1) c2(1) w(1) d)
qed

lemma Math_max_ge:
  assumes "is_num v"
  shows "\<exists>L. Math_max (Num c) v = L \<and> is_num L \<and> num_le (Num c) L \<and> (v \<noteq> PosInf \<longrightarrow> L \<noteq> PosInf)"
  using assms by (cases v) (auto simp: Math_max_def)

lemma Math_min_le:
  assumes "is_num v"
  shows "\<exists>H. Math_min (Num c) v = H \<and> is_num H \<and> num_le H (Num c) \<and> (v \<noteq> NegInf \<longrightarrow> H \<noteq> NegInf)"
  using assms by (cases v) (auto simp: Math_min_def)

lemma num_ceil_is_num: "is_num v \<Longrightarrow> is_num (Math_ceil v)"
  and num_floor_is_num: "is_num v \<Longrightarrow> is_num (Math_floor v)"
  and num_round_is_num: "is_num v \<Longrightarrow> is_num (Math_round v)"
  by (cases v; simp add: Math_ceil_def Math_floor_def Math_round_def)+

text \<open>With finite bounds and moderate magnitudes every branch of \<^verbatim>\<open>chooseJitter\<close> is finite.\<close>

lemma chooseJitter_finite:
  assumes "0 \<le> u" "u \<le> 1" "\<bar>l\<bar> \<le> 2 ^ 53" "\<bar>h\<bar> \<le> 2 ^ 53"
  shows "\<exists>d. chooseJitter u (Num x) (Num a) (Num b) (Num l) (Num h) = Num d"
proof -
  have l: "\<bar>- l\<bar> \<le> 2 ^ 53" using assms(3) by simp
  have z: "\<bar>0::rat\<bar> \<le> 2 ^ 53" by simp
  obtain lo where lo:
    "Math_max (Num (- l)) (Math_ceil (js_sub (Num a) (Num x))) = lo" "is_num lo"
    "num_le (Num (- l)) lo"
    using Math_max_ge [of "Math_ceil (js_sub (Num a) (Num x))" "- l"]
    by (auto simp: js_sub_Num num_ceil_is_num)
  obtain hi where hi:
    "Math_min (Num h) (Math_floor (js_sub (Num b) (Num x))) = hi" "is_num hi"
    "num_le hi (Num h)"
    using Math_min_le [of "Math_floor (js_sub (Num b) (Num x))" h]
    by (auto simp: js_sub_Num num_floor_is_num)
  have inner: "\<exists>d. (if js_gt lo hi then Num 0 else randInt u lo hi) = Num d"
  proof (cases "js_gt lo hi")
    case True
    then show ?thesis by simp
  next
    case False
    then have le: "num_le lo hi" using lo(2) hi(2) by (simp add: js_gt_def not_num_lt)
    obtain L where L: "lo = Num L" "- l \<le> L"
      using lo(3) le hi(3) by (cases lo; cases hi) auto
    obtain H where H: "hi = Num H" "H \<le> h"
      using lo(3) le hi(3) by (cases lo; cases hi) auto
    have LH: "L \<le> H" using le L(1) H(1) by simp
    have "\<bar>L\<bar> \<le> 2 ^ 53" "\<bar>H\<bar> \<le> 2 ^ 53" using L(2) H(2) LH assms(3,4) by auto
    then show ?thesis using randInt_finite [OF assms(1,2), of L H] False by (simp add: L H)
  qed
  show ?thesis
    using randInt_finite [OF assms(1,2) z assms(4)] randInt_finite [OF assms(1,2) l z] inner
    by (simp add: chooseJitter_Num lo(1) hi(1) Let_def)
qed

lemma chooseJitter_no_rails:
  "chooseJitter u v Null Null (Num l) (Num h) = randInt u (Num (- l)) (Num h)"
  by (simp add: chooseJitter_def loose_eq_null_def js_neg_Num)

text \<open>\<^verbatim>\<open>clamp\<close> between two finite bounds returns a finite number for every number.\<close>

lemma clamp_finite:
  assumes "is_num v"
  shows "\<exists>x. clamp v (Num a) (Num b) = Num x"
  using assms by (cases v) (auto simp: clamp_def js_lt_def js_gt_def)

lemma roundToStep_is_num:
  assumes "is_num x" and "step0 = Undefined \<or> Number_isFinite step0"
  shows "is_num (roundToStep x step0)"
proof -
  obtain st where st: "(if step0 = Undefined then Num 10 else step0) = Num st"
    using assms(2) by (cases step0) auto
  show ?thesis
  proof (cases "\<not> Number_isFinite x \<or> st \<le> 0")
    case True
    then show ?thesis using assms(1) by (auto simp: roundToStep_def st js_le_Num)
  next
    case False
    then obtain r where r: "x = Num r" and pos: "0 < st" by (cases x) auto
    have "is_num (Math_round (to_double (r / st)))" by (simp add: num_round_is_num)
    then have "is_num (js_mul (Math_round (to_double (r / st))) (Num st))"
      using pos by (cases "Math_round (to_double (r / st))") (auto simp: js_mul_def)
    then show ?thesis using pos by (simp add: roundToStep_def st r js_le_Num js_div_Num)
  qed
qed

lemma round_ge_int: "of_int m \<le> v \<Longrightarrow> m \<le> \<lfloor>v + 1 / 2\<rfloor>" for v :: rat
  by (simp add: le_floor_iff)

lemma round_le_int: "v \<le> of_int M \<Longrightarrow> \<lfloor>v + 1 / 2\<rfloor> \<le> M" for v :: rat
  by (simp add: floor_le_iff)

text \<open>The last three statements of the calculator, from a rounded value \<open>r\<close> that is a number.\<close>

lemma absolute_bounds:
  fixes r mn mx :: jsval
  assumes "is_num r"
  defines "R_min \<equiv> (if Number_isFinite mn then Math_max r mn else r)"
  defines "R_max \<equiv> (if Number_isFinite mx then Math_min R_min mx else R_min)"
  defines "R_final \<equiv> Math_max (Num 1) (Math_round R_max)"
  shows "js_le (Num 1) R_final"
    and "R_final = PosInf \<or> (\<exists>z. R_final = Num (of_int z))"
    and "mx = Num (of_int M) \<Longrightarrow> 1 \<le> M \<Longrightarrow> js_le R_final (Num (of_int M))"
    and "mn = Num (of_int m) \<Longrightarrow> \<not> Number_isFinite mx \<or> js_le mn mx \<Longrightarrow>
           js_le (Num (of_int m)) R_final"
proof -
  have n1: "is_num R_min"
    using assms(1) by (cases r; cases mn) (auto simp: R_min_def Math_max_def)
  have n2: "is_num R_max"
    using n1 by (cases R_min; cases mx) (auto simp: R_max_def Math_min_def)
  show "js_le (Num 1) R_final"
    using n2 by (cases R_max) (auto simp: R_final_def Math_max_def Math_round_def js_le_def)
  show "R_final = PosInf \<or> (\<exists>z. R_final = Num (of_int z))"
  proof (cases R_max)
    case (Num v)
    have "R_final = Num (of_int (max 1 \<lfloor>v + 1 / 2\<rfloor>))"
      by (simp add: R_final_def Num Math_round_Num Math_max_Num of_int_max [symmetric]
          del: of_int_max)
    then show ?thesis by blast
  qed (use n2 in \<open>auto simp: R_final_def Math_max_def Math_round_def\<close>)
  show "js_le R_final (Num (of_int M))" if "mx = Num (of_int M)" "1 \<le> M"
  proof -
    have "num_le R_max (Num (of_int M))"
      using n1 that(1) by (cases R_min) (auto simp: R_max_def Math_min_def)
    then consider "R_max = NegInf" | v where "R_max = Num v" "v \<le> of_int M"
      by (cases R_max) auto
    then show ?thesis
    proof cases
      case 1
      then show ?thesis using that(2) by (simp add: R_final_def Math_max_def Math_round_def js_le_def)
    next
      case 2
      have "\<lfloor>v + 1 / 2\<rfloor> \<le> M" using 2(2) by (rule round_le_int)
      then have "max 1 \<lfloor>v + 1 / 2\<rfloor> \<le> M" using that(2) by simp
      then have "(of_int (max 1 \<lfloor>v + 1 / 2\<rfloor>) :: rat) \<le> of_int M" by (simp only: of_int_le_iff)
      then show ?thesis
        by (simp add: R_final_def 2(1) Math_round_Num Math_max_Num js_le_Num
            of_int_max [symmetric] del: of_int_max)
    qed
  qed
  show "js_le (Num (of_int m)) R_final"
    if "mn = Num (of_int m)" "\<not> Number_isFinite mx \<or> js_le mn mx"
  proof -
    have a: "num_le (Num (of_int m)) R_min"
      using assms(1) that(1) by (cases r) (auto simp: R_min_def Math_max_def)
    have "num_le (Num (of_int m)) R_max"
    proof (cases "Number_isFinite mx")
      case False
      then show ?thesis using a by (simp add: R_max_def)
    next
      case True
      then obtain b where b: "mx = Num b" by (cases mx) auto
      then have "of_int m \<le> b" using that by (simp add: js_le_Num)
      then show ?thesis using a n1 by (cases R_min) (auto simp: R_max_def b Math_min_def)
    qed
    then consider "R_max = PosInf" | v where "R_max = Num v" "of_int m \<le> v"
      by (cases R_max) auto
    then show ?thesis
    proof cases
      case 1
      then show ?thesis by (simp add: R_final_def Math_max_def Math_round_def js_le_def)
    next
      case 2
      have "m \<le> \<lfloor>v + 1 / 2\<rfloor>" using 2(2) by (rule round_ge_int)
      then have "m \<le> max 1 \<lfloor>v + 1 / 2\<rfloor>" by simp
      then have "(of_int m :: rat) \<le> of_int (max 1 \<lfloor>v + 1 / 2\<rfloor>)" by (simp only: of_int_le_iff)
      then show ?thesis
        by (simp add: R_final_def 2(1) Math_round_Num Math_max_Num js_le_Num
            of_int_max [symmetric] del: of_int_max)
    qed
  qed
qed

text \<open>
  From the clamped value to the rounded one: under the conditions below the value handed
  to the absolute bounds is a number, never NaN.
\<close>

lemma jitter_bases:
  assumes "moderate_jitter opts"
  shows "\<exists>l h. (case jitterRange opts of None \<Rightarrow> Num 5 | Some p \<Rightarrow> fst p) = Num l \<and>
     (case jitterRange opts of None \<Rightarrow> Num 5 | Some p \<Rightarrow> snd p) = Num h \<and>
     \<bar>l\<bar> \<le> 2 ^ 53 \<and> \<bar>h\<bar> \<le> 2 ^ 53"
  using assms
  by (auto simp: moderate_jitter_def split: option.splits prod.splits jsval.splits)

lemma rounded_is_num:
  assumes "0 < T" "0 < s" "s \<le> 1" "0 < C" "0 < R"
    and "finite_config opts" "moderate_jitter opts" "finite_bounds (Num R) opts"
    and "0 \<le> u" "u \<le> 1"
  shows "\<exists>res r. computeNewRgpFromInputs u (Num T) (Num s) (Num C) (Num R) opts = Inr res \<and>
     is_num r \<and>
     proposedRgpMist res =
       Math_max (Num 1) (Math_round
         (if Number_isFinite (maxRgpMist opts)
          then Math_min (if Number_isFinite (minRgpMist opts)
                         then Math_max r (minRgpMist opts) else r) (maxRgpMist opts)
          else (if Number_isFinite (minRgpMist opts)
                then Math_max r (minRgpMist opts) else r)))"
proof -
  obtain res where res:
    "computeNewRgpFromInputs u (Num T) (Num s) (Num C) (Num R) opts = Inr res"
    "calc_R_raw (calc res) = js_mul (Num R) (js_div (to_double (s * T)) (Num C))"
    "calc_clampMin (calc res) =
       (if guardRailsEnabled opts
        then js_mul (Num R) (js_add (Num 1) (js_div (lowPct_of opts) (Num 100))) else Null)"
    "calc_clampMax (calc res) =
       (if guardRailsEnabled opts
        then js_mul (Num R) (js_add (Num 1) (js_div (highPct_of opts) (Num 100))) else Null)"
    "calc_R_clamped (calc res) =
       clamp (calc_R_raw (calc res)) (calc_clampMin (calc res)) (calc_clampMax (calc res))"
    "calc_jitter (calc res) =
       chooseJitter u (calc_R_clamped (calc res)) (calc_clampMin (calc res))
         (calc_clampMax (calc res))
         (case jitterRange opts of None \<Rightarrow> Num 5 | Some p \<Rightarrow> fst p)
         (case jitterRange opts of None \<Rightarrow> Num 5 | Some p \<Rightarrow> snd p)"
    "proposedRgpMist res =
       (let R_rounded = roundToStep (js_add (calc_R_clamped (calc res)) (calc_jitter (calc res)))
              (roundStep opts);
            R_min = (if Number_isFinite (minRgpMist opts)
                     then Math_max R_rounded (minRgpMist opts) else R_rounded);
            R_max = (if Number_isFinite (maxRgpMist opts)
                     then Math_min R_min (maxRgpMist opts) else R_min)
        in Math_max (Num 1) (Math_round R_max))"
    using computeNewRgp_valid [OF assms(1-5), of u opts] by auto
  have raw0: "num_le (Num 0) (calc_R_raw (calc res))"
    unfolding res(2) using assms(1,2,4,5) by (rule raw_proposal_nonneg)
  then have raw: "is_num (calc_R_raw (calc res))" using num_le_is_num by blast
  obtain l h where lh:
    "(case jitterRange opts of None \<Rightarrow> Num 5 | Some p \<Rightarrow> fst p) = Num l"
    "(case jitterRange opts of None \<Rightarrow> Num 5 | Some p \<Rightarrow> snd p) = Num h"
    "\<bar>l\<bar> \<le> 2 ^ 53" "\<bar>h\<bar> \<le> 2 ^ 53"
    using jitter_bases [OF assms(7)] by blast
  have after: "is_num (js_add (calc_R_clamped (calc res)) (calc_jitter (calc res)))"
  proof (cases "guardRailsEnabled opts")
    case True
    obtain a b where ab: "calc_clampMin (calc res) = Num a" "calc_clampMax (calc res) = Num b"
      using assms(8) True res(3,4) by (auto simp: finite_bounds_def Number_isFinite_iff)
    obtain x where x: "calc_R_clamped (calc res) = Num x"
      using clamp_finite [OF raw, of a b] res(5) ab by auto
    obtain d where d: "calc_jitter (calc res) = Num d"
      using chooseJitter_finite [OF assms(9,10) lh(3,4), of x a b] res(6) ab x lh(1,2) by auto
    show ?thesis by (simp add: x d js_add_Num)
  next
    case False
    have cl: "calc_R_clamped (calc res) = Num 0 \<or> calc_R_clamped (calc res) = Null"
      using res(3,4,5) False clamp_Null [OF raw0] by auto
    have lm: "\<bar>- l\<bar> \<le> 2 ^ 53" using lh(3) by simp
    obtain d where d: "calc_jitter (calc res) = Num d"
      using randInt_finite [OF assms(9,10) lm lh(4)] res(3,4,6) False lh(1,2)
      by (auto simp: chooseJitter_no_rails)
    show ?thesis using cl by (auto simp: d js_add_Num js_add_Null)
  qed
  have st: "roundStep opts = Undefined \<or> Number_isFinite (roundStep opts)"
    using assms(6) by (simp add: finite_config_def)
  have "is_num (roundToStep (js_add (calc_R_clamped (calc res)) (calc_jitter (calc res)))
      (roundStep opts))"
    using after st by (rule roundToStep_is_num)
  then show ?thesis using res(1,7) by (auto simp: Let_def)
qed

text \<open>At the top of the binary64 range: a quotient, a product and a sum that overflow.\<close>

lemma huge_pos: "0 < huge"
  unfolding huge_def by (rule p2_pos)

lemma huge_double: "to_double huge = Num huge"
  unfolding huge_def by (rule to_double_p2) simp_all

lemma twice_huge: "to_double (2 * huge) = PosInf"
proof -
  have "(2::rat) powi 1024 = 2 powi 1023 * 2 powi 1" by (simp only: p2_add [symmetric]) simp
  then have "overflow_bound \<le> 2 * huge" by (simp add: overflow_bound_def huge_def)
  then show ?thesis by (rule to_double_overflow)
qed

lemma raw_overflow: "js_mul (Num 500) (js_div (to_double huge) (Num (1 / 1024))) = PosInf"
proof -
  have "(2::rat) powi 1024 = 2 powi 1023 * 2 powi 1" by (simp only: p2_add [symmetric]) simp
  then have "overflow_bound \<le> huge * 1024"
    using huge_pos by (simp add: overflow_bound_def huge_def)
  then have "to_double (huge * 1024) = PosInf" by (rule to_double_overflow)
  then show ?thesis by (simp add: huge_double js_div_Num js_mul_def)
qed

lemma bound_overflow: "js_mul (Num 500) (js_add (Num 1) (js_div (Num huge) (Num 100))) = PosInf"
proof -
  define P :: rat where "P = 2 powi 1016"
  have Ppos: "0 < P" unfolding P_def by (rule p2_pos)
  have hP: "huge = 128 * P"
  proof -
    have "(2::rat) powi 1023 = 2 powi 7 * 2 powi 1016" by (simp only: p2_add [symmetric]) simp
    then show ?thesis by (simp add: huge_def P_def)
  qed
  have oP: "overflow_bound = 256 * P"
  proof -
    have "(2::rat) powi 1024 = 2 powi 8 * 2 powi 1016" by (simp only: p2_add [symmetric]) simp
    then show ?thesis by (simp add: overflow_bound_def P_def)
  qed
  have dP: "to_double P = Num P" unfolding P_def by (rule to_double_p2) simp_all
  have ge: "num_le (Num P) (to_double x)" if "P \<le> x" for x
    using to_double_mono [OF that] by (simp add: dP)
  have "P \<le> huge / 100" using Ppos by (simp add: hP)
  then have 1: "num_le (Num P) (to_double (huge / 100))" by (rule ge)
  have 2: "num_le (Num P) (js_add (Num 1) (to_double (huge / 100)))"
  proof (cases "to_double (huge / 100)")
    case (Num r)
    then have "P \<le> 1 + r" using 1 by simp
    then show ?thesis using ge [of "1 + r"] by (simp add: Num js_add_Num)
  qed (use 1 in \<open>auto simp: js_add_def\<close>)
  have "js_mul (Num 500) (js_add (Num 1) (to_double (huge / 100))) = PosInf"
  proof (cases "js_add (Num 1) (to_double (huge / 100))")
    case (Num r)
    then have "P \<le> r" using 2 by simp
    then have "overflow_bound \<le> 500 * r" using Ppos by (simp add: oP)
    then show ?thesis using to_double_overflow [of "500 * r"] by (simp add: Num js_mul_Num)
  qed (use 2 in \<open>auto simp: js_mul_def\<close>)
  then show ?thesis by (simp add: js_div_Num)
qed

lemma jitter_NaN: "chooseJitter u PosInf (Num a) PosInf (Num 5) (Num 5) = NaN"
  by (simp add: chooseJitter_def randInt_def loose_eq_null_def strict_eq_def js_sub_def
      js_add_def js_mul_def js_neg_def js_gt_def Math_ceil_def Math_floor_def Math_max_def
      Math_min_def Let_def)

lemma final_NaN:
  "Math_max (Num 1) (Math_round (roundToStep (js_add v NaN) (Num 1))) = NaN"
  by (cases v) (simp_all add: js_add_def roundToStep_def Math_round_def Math_max_def)

lemma randInt_huge: "randInt 0 (Num (- huge)) (Num huge) = NaN"
  by (simp add: randInt_def js_sub_Num twice_huge js_add_def js_mul_def Math_floor_def)

text \<open>The scenario's band \<open>[300, 700]\<close> and its draw for \<open>u = 1/2\<close>.\<close>

lemma bound_300:
  "js_mul (Num 500) (js_add (Num 1) (js_div (Num (- 40)) (Num 100))) = Num 300"
  by code_simp

lemma bound_700:
  "js_mul (Num 500) (js_add (Num 1) (js_div (Num 40) (Num 100))) = Num 700"
  by code_simp

lemma jitter_at_600: "chooseJitter (1 / 2) (Num 600) (Num 300) (Num 700) (Num 5) (Num 5) = Num 0"
  by code_simp

lemma rounded_600: "roundToStep (js_add (Num 600) (Num 0)) (Num 1) = Num 600"
  by code_simp

lemma scenario_absolute:
  assumes "minRgpMist opts = Num mn" "maxRgpMist opts = Num mx"
    and "guardRailsEnabled opts" "guardRailsPct opts = Some (Num (- 40), Num 40)"
    and "jitterRange opts = Some (Num 5, Num 5)" "roundStep opts = Num 1"
  shows "\<exists>res. computeNewRgpFromInputs (1 / 2) scenario_T scenario_s scenario_C scenario_R opts =
              Inr res \<and>
     proposedRgpMist res = Math_max (Num 1) (Math_round (Num (min (max 600 mn) mx)))"
proof -
  have pct: "lowPct_of opts = Num (- 40)" "highPct_of opts = Num 40"
    using assms(4) by (simp_all add: lowPct_of_def highPct_of_def nullish_def)
  obtain res where res:
    "computeNewRgpFromInputs (1 / 2) scenario_T scenario_s scenario_C scenario_R opts = Inr res"
    "calc_clampMin (calc res) = Num 300" "calc_clampMax (calc res) = Num 700"
    "calc_R_clamped (calc res) =
       clamp (Num 600) (calc_clampMin (calc res)) (calc_clampMax (calc res))"
    "calc_jitter (calc res) =
       chooseJitter (1 / 2) (calc_R_clamped (calc res)) (calc_clampMin (calc res))
         (calc_clampMax (calc res)) (Num 5) (Num 5)"
    "proposedRgpMist res =
       Math_max (Num 1) (Math_round (Math_min (Math_max
         (roundToStep (js_add (calc_R_clamped (calc res)) (calc_jitter (calc res))) (Num 1))
         (Num mn)) (Num mx)))"
    using scenario_run [of "1 / 2" opts] assms
    by (auto simp: pct bound_300 bound_700 Let_def)
  have cl: "calc_R_clamped (calc res) = Num 600"
    using res(4) by (simp add: res(2,3) clamp_def js_lt_Num js_gt_Num)
  have ji: "calc_jitter (calc res) = Num 0" using res(5) by (simp add: cl res(2,3) jitter_at_600)
  show ?thesis
    using res(1,6) by (auto simp: cl ji rounded_600 Math_max_Num Math_min_Num)
qed

text \<open>
  C6, as stated, fails in three ways, each on valid inputs and a finite configuration.
  \<^item> Overflow: with \<open>T = 2^1023\<close>, \<open>s = 1\<close>, \<open>C = 2^-10\<close>, \<open>R_now = 500\<close> and guard rails
    \<open>[-40, 2^1023]\<close> per cent the raw proposal and the upper bound are \<open>+\<infinity>\<close>, the head
    room \<open>clampMax - R_clamped\<close> is NaN, and so are the jitter and the proposal.
  \<^item> Bounds in the wrong order: in the scenario with \<open>minRgpMist = 1000\<close> and
    \<open>maxRgpMist = 500\<close> the proposal is 500, below the minimum.
  \<^item> Magnitudes that overflow: in the scenario with guard rails disabled, jitter
    magnitudes \<open>[2^1023, 2^1023]\<close> and the draw \<open>u = 0\<close> the width of the range is \<open>+\<infinity>\<close>,
    its product with 0 is NaN, and so is the proposal.
\<close>

theorem final_proposal_bounds_counterexample:
  "(case computeNewRgpFromInputs (1 / 2) (Num huge) (Num 1) (Num (1 / 1024)) (Num 500)
       (scenario_options\<lparr>guardRailsPct := Some (Num (- 40), Num huge)\<rparr>) of
     Inl e \<Rightarrow> False
   | Inr res \<Rightarrow>
       calc_R_raw (calc res) = PosInf \<and> calc_clampMin (calc res) = Num 300 \<and>
       calc_clampMax (calc res) = PosInf \<and> calc_jitter (calc res) = NaN \<and>
       proposedRgpMist res = NaN \<and> \<not> js_le (Num 1) (proposedRgpMist res))
   \<and> (case computeNewRgpFromInputs (1 / 2) scenario_T scenario_s scenario_C scenario_R
       (scenario_options\<lparr>minRgpMist := Num 1000, maxRgpMist := Num 500\<rparr>) of
     Inl e \<Rightarrow> False
   | Inr res \<Rightarrow>
       proposedRgpMist res = Num 500 \<and> \<not> js_le (Num 1000) (proposedRgpMist res))
   \<and> (case computeNewRgpFromInputs 0 scenario_T scenario_s scenario_C scenario_R
       (scenario_options\<lparr>guardRailsEnabled := False,
          jitterRange := Some (Num huge, Num huge)\<rparr>) of
     Inl e \<Rightarrow> False
   | Inr res \<Rightarrow>
       calc_jitter (calc res) = NaN \<and> proposedRgpMist res = NaN \<and>
       \<not> js_le (Num 1) (proposedRgpMist res))"
proof (intro conjI)
  let ?opts = "scenario_options\<lparr>guardRailsPct := Some (Num (- 40), Num huge)\<rparr>"
  have pct: "lowPct_of ?opts = Num (- 40)" "highPct_of ?opts = Num huge"
    by (simp_all add: lowPct_of_def highPct_of_def nullish_def)
  have o: "guardRailsEnabled ?opts" "jitterRange ?opts = Some (Num 5, Num 5)"
    "roundStep ?opts = Num 1" "minRgpMist ?opts = Undefined" "maxRgpMist ?opts = Undefined"
    by (simp_all add: scenario_options_def)
  obtain res where res:
    "computeNewRgpFromInputs (1 / 2) (Num huge) (Num 1) (Num (1 / 1024)) (Num 500) ?opts = Inr res"
    "calc_R_raw (calc res) = PosInf"
    "calc_clampMin (calc res) = Num 300" "calc_clampMax (calc res) = PosInf"
    "calc_R_clamped (calc res) =
       clamp (calc_R_raw (calc res)) (calc_clampMin (calc res)) (calc_clampMax (calc res))"
    "calc_jitter (calc res) =
       chooseJitter (1 / 2) (calc_R_clamped (calc res)) (calc_clampMin (calc res))
         (calc_clampMax (calc res)) (Num 5) (Num 5)"
    "proposedRgpMist res =
       Math_max (Num 1) (Math_round
         (roundToStep (js_add (calc_R_clamped (calc res)) (calc_jitter (calc res))) (Num 1)))"
    using computeNewRgp_valid [of huge 1 "1 / 1024" 500 "1 / 2" ?opts] huge_pos
    by (auto simp: o pct raw_overflow bound_300 bound_overflow Let_def)
  have cl: "calc_R_clamped (calc res) = PosInf"
    using res(5) by (simp add: res(2,3,4) clamp_def js_lt_def js_gt_def)
  have ji: "calc_jitter (calc res) = NaN" using res(6) by (simp add: cl res(3,4) jitter_NaN)
  have pr: "proposedRgpMist res = NaN" using res(7) by (simp add: ji final_NaN)
  show "case computeNewRgpFromInputs (1 / 2) (Num huge) (Num 1) (Num (1 / 1024)) (Num 500) ?opts of
     Inl e \<Rightarrow> False
   | Inr res \<Rightarrow>
       calc_R_raw (calc res) = PosInf \<and> calc_clampMin (calc res) = Num 300 \<and>
       calc_clampMax (calc res) = PosInf \<and> calc_jitter (calc res) = NaN \<and>
       proposedRgpMist res = NaN \<and> \<not> js_le (Num 1) (proposedRgpMist res)"
    using res(1-4) ji pr by (simp add: js_le_def)
next
  let ?opts = "scenario_options\<lparr>minRgpMist := Num 1000, maxRgpMist := Num 500\<rparr>"
  obtain res where res:
    "computeNewRgpFromInputs (1 / 2) scenario_T scenario_s scenario_C scenario_R ?opts = Inr res"
    "proposedRgpMist res = Math_max (Num 1) (Math_round (Num (min (max 600 1000) 500)))"
    using scenario_absolute [of ?opts 1000 500] by (auto simp: scenario_options_def)
  have "Math_max (Num 1) (Math_round (Num (min (max 600 1000) 500))) = Num 500" by code_simp
  then have "proposedRgpMist res = Num 500" using res(2) by simp
  then show "case computeNewRgpFromInputs (1 / 2) scenario_T scenario_s scenario_C scenario_R ?opts of
     Inl e \<Rightarrow> False
   | Inr res \<Rightarrow> proposedRgpMist res = Num 500 \<and> \<not> js_le (Num 1000) (proposedRgpMist res)"
    using res(1) by (simp add: js_le_Num)
next
  let ?opts = "scenario_options\<lparr>guardRailsEnabled := False,
                 jitterRange := Some (Num huge, Num huge)\<rparr>"
  have o: "\<not> guardRailsEnabled ?opts" "jitterRange ?opts = Some (Num huge, Num huge)"
    "roundStep ?opts = Num 1" "minRgpMist ?opts = Undefined" "maxRgpMist ?opts = Undefined"
    by (simp_all add: scenario_options_def)
  obtain res where res:
    "computeNewRgpFromInputs 0 scenario_T scenario_s scenario_C scenario_R ?opts = Inr res"
    "calc_clampMin (calc res) = Null" "calc_clampMax (calc res) = Null"
    "calc_jitter (calc res) =
       chooseJitter 0 (calc_R_clamped (calc res)) (calc_clampMin (calc res))
         (calc_clampMax (calc res)) (Num huge) (Num huge)"
    "proposedRgpMist res =
       Math_max (Num 1) (Math_round
         (roundToStep (js_add (calc_R_clamped (calc res)) (calc_jitter (calc res))) (Num 1)))"
    using scenario_run [of 0 ?opts] by (auto simp: o Let_def)
  have ji: "calc_jitter (calc res) = NaN"
    using res(4) by (simp add: res(2,3) chooseJitter_no_rails randInt_huge)
  have pr: "proposedRgpMist res = NaN" using res(5) by (simp add: ji final_NaN)
  show "case computeNewRgpFromInputs 0 scenario_T scenario_s scenario_C scenario_R ?opts of
     Inl e \<Rightarrow> False
   | Inr res \<Rightarrow>
       calc_jitter (calc res) = NaN \<and> proposedRgpMist res = NaN \<and>
       \<not> js_le (Num 1) (proposedRgpMist res)"
    using res(1) ji pr by (simp add: js_le_def)
qed

text \<open>
  C6, amended. On valid inputs, with a finite rounding step, jitter magnitudes of at most
  \<open>2^53\<close>, clamp bounds that do not overflow and a draw in \<open>[0, 1]\<close>, the proposal is a
  number with \<open>R_final \<ge> 1\<close>; it is an integer unless it is \<open>+\<infinity>\<close> (which takes an overflow
  in the rounding to the step). It is at most \<open>maxRgpMist\<close> when that is an integer of at
  least 1, and at least \<open>minRgpMist\<close> when that is an integer and no maximum below it is
  configured.
\<close>

theorem final_proposal_bounds:
  assumes "0 < T" "0 < s" "s \<le> 1" "0 < C" "0 < R"
    and "finite_config opts" "moderate_jitter opts" "finite_bounds (Num R) opts"
    and "0 \<le> u" "u \<le> 1"
  shows "\<exists>res. computeNewRgpFromInputs u (Num T) (Num s) (Num C) (Num R) opts = Inr res \<and>
     js_le (Num 1) (proposedRgpMist res) \<and>
     (proposedRgpMist res = PosInf \<or> (\<exists>z. proposedRgpMist res = Num (of_int z))) \<and>
     (\<forall>M. maxRgpMist opts = Num (of_int M) \<and> 1 \<le> M \<longrightarrow>
        js_le (proposedRgpMist res) (Num (of_int M))) \<and>
     (\<forall>m. minRgpMist opts = Num (of_int m) \<and>
        (\<not> Number_isFinite (maxRgpMist opts) \<or> js_le (minRgpMist opts) (maxRgpMist opts)) \<longrightarrow>
        js_le (Num (of_int m)) (proposedRgpMist res))"
proof -
  obtain res r where res:
    "computeNewRgpFromInputs u (Num T) (Num s) (Num C) (Num R) opts = Inr res"
    "is_num r"
    "proposedRgpMist res =
       Math_max (Num 1) (Math_round
         (if Number_isFinite (maxRgpMist opts)
          then Math_min (if Number_isFinite (minRgpMist opts)
                         then Math_max r (minRgpMist opts) else r) (maxRgpMist opts)
          else (if Number_isFinite (minRgpMist opts)
                then Math_max r (minRgpMist opts) else r)))"
    using rounded_is_num [OF assms] by blast
  note ab = absolute_bounds
      [where mn = "minRgpMist opts" and mx = "maxRgpMist opts", OF res(2), folded res(3)]
  show ?thesis
    using res(1) ab(1) ab(2) ab(3) ab(4) by (intro exI [of _ res]) blast
qed

text \<open>The scenario with the absolute bounds \<open>[100, 590]\<close>: the proposal is 590.\<close>

theorem final_proposal_bounds_witness:
  "\<exists>res. computeNewRgpFromInputs (1 / 2) scenario_T scenario_s scenario_C scenario_R
       (scenario_options\<lparr>minRgpMist := Num 100, maxRgpMist := Num 590\<rparr>) = Inr res \<and>
     proposedRgpMist res = Num 590 \<and>
     js_le (Num 1) (proposedRgpMist res) \<and>
     js_le (proposedRgpMist res) (Num 590) \<and>
     js_le (Num 100) (proposedRgpMist res)"
proof -
  let ?opts = "scenario_options\<lparr>minRgpMist := Num 100, maxRgpMist := Num 590\<rparr>"
  let ?T = "1152921504606847 / 288230376151711744 :: rat"
  let ?s = "5404319552844595 / 9007199254740992 :: rat"
  let ?C = "1152921504606847 / 576460752303423488 :: rat"
  have pct: "lowPct_of ?opts = Num (- 40)" "highPct_of ?opts = Num 40"
    by (simp_all add: lowPct_of_def highPct_of_def nullish_def scenario_options_def)
  have fc: "finite_config ?opts"
    by (simp add: finite_config_def pct) (simp add: scenario_options_def)
  have mj: "moderate_jitter ?opts" by (simp add: moderate_jitter_def scenario_options_def)
  have fb: "finite_bounds (Num 500) ?opts" by (simp add: finite_bounds_def pct bound_300 bound_700)
  obtain res where res:
    "computeNewRgpFromInputs (1 / 2) (Num ?T) (Num ?s) (Num ?C) (Num 500) ?opts = Inr res"
    "js_le (Num 1) (proposedRgpMist res)"
    "js_le (proposedRgpMist res) (Num (of_int 590))"
    "js_le (Num (of_int 100)) (proposedRgpMist res)"
    using final_proposal_bounds [of ?T ?s ?C 500 ?opts "1 / 2", OF _ _ _ _ _ fc mj fb]
    by (auto simp: js_le_Num)
  obtain res' where res':
    "computeNewRgpFromInputs (1 / 2) scenario_T scenario_s scenario_C scenario_R ?opts = Inr res'"
    "proposedRgpMist res' = Math_max (Num 1) (Math_round (Num (min (max 600 100) 590)))"
    using scenario_absolute [of ?opts 100 590] by (auto simp: scenario_options_def)
  have same: "res' = res" using res(1) res'(1) by (simp add: scenario_values)
  have "Math_max (Num 1) (Math_round (Num (min (max 600 100) 590))) = Num 590" by code_simp
  then have "proposedRgpMist res = Num 590" using res'(2) by (simp add: same)
  then show ?thesis using res by (simp add: scenario_values)
qed

section \<open>BigInt division and the decimal rendering\<close>

lemma sdiv_nonneg: "0 \<le> a \<Longrightarrow> 0 < n \<Longrightarrow> a sdiv n = a div n" for a n :: int
  by (simp add: signed_divide_int_def sgn_if)

lemma sdiv_nonneg_ge0: "0 \<le> a \<Longrightarrow> 0 < n \<Longrightarrow> 0 \<le> a sdiv n" for a n :: int
  by (simp add: sdiv_nonneg pos_imp_zdiv_nonneg_iff)

lemma smod_nonneg: "0 \<le> a \<Longrightarrow> 0 < n \<Longrightarrow> a smod n = a mod n" for a n :: int
  by (simp add: signed_modulo_int_def sgn_if)

text \<open>
  With a non-zero denominator no division of \<^verbatim>\<open>divBigIntToDecimalString\<close> throws, and the
  result is the sign, the digits of the integer part, a point, and the padded digits of
  the fractional part of \<open>\<bar>numer\<bar> * 10 ^ decimals div \<bar>denom\<bar>\<close>.
\<close>

lemma divBigInt_unfold:
  assumes "denom \<noteq> 0"
  shows "divBigIntToDecimalString numer denom decimals =
     Inr ((if (numer < 0) \<noteq> (denom < 0) then ''-'' else []) @
          showNat (nat ((\<bar>numer\<bar> * 10 ^ decimals div \<bar>denom\<bar>) div 10 ^ decimals)) @ ''.'' @
          padStart decimals (CHR ''0'')
            (showNat (nat ((\<bar>numer\<bar> * 10 ^ decimals div \<bar>denom\<bar>) mod 10 ^ decimals))))"
proof -
  define scale :: int where "scale = 10 ^ decimals"
  define q where "q = \<bar>numer\<bar> * scale div \<bar>denom\<bar>"
  have scale: "0 < scale" by (simp add: scale_def)
  have dpos: "0 < \<bar>denom\<bar>" using assms by simp
  have q0: "0 \<le> q" using scale dpos by (simp add: q_def pos_imp_zdiv_nonneg_iff)
  have n1: "(if numer < 0 then - numer else numer) = \<bar>numer\<bar>" by simp
  have d1: "(if denom < 0 then - denom else denom) = \<bar>denom\<bar>" by simp
  have qd: "(\<bar>numer\<bar> * scale) sdiv \<bar>denom\<bar> = q"
    using scale dpos by (simp add: q_def sdiv_nonneg)
  have ip: "q sdiv scale = q div scale" using q0 scale by (rule sdiv_nonneg)
  have fp: "q smod scale = q mod scale" using q0 scale by (rule smod_nonneg)
  have ip0: "0 \<le> q div scale" using q0 scale by (simp add: pos_imp_zdiv_nonneg_iff)
  have fp0: "0 \<le> q mod scale" using scale by simp
  have "divBigIntToDecimalString numer denom decimals =
     Inr ((if (numer < 0) \<noteq> (denom < 0) then ''-'' else []) @
          BigInt_toString (q div scale) @ ''.'' @
          padStart decimals (CHR ''0'') (BigInt_toString (q mod scale)))"
    unfolding divBigIntToDecimalString_def Let_def n1 d1 scale_def [symmetric]
    using assms scale dpos
    by (simp add: bind_err_def BigInt_div_def BigInt_mod_def qd ip fp)
  moreover have "BigInt_toString (q div scale) = showNat (nat (q div scale))"
    using ip0 by (simp add: BigInt_toString_def)
  moreover have "BigInt_toString (q mod scale) = showNat (nat (q mod scale))"
    using fp0 by (simp add: BigInt_toString_def)
  ultimately show ?thesis
    by (simp add: q_def scale_def)
qed

lemma divBigInt_Inr: "\<exists>s. divBigIntToDecimalString numer denom decimals = Inr s"
  by (cases "denom = 0") (simp_all add: divBigIntToDecimalString_def [of _ 0] divBigInt_unfold)

lemma percent_Inr: "\<exists>s. percentFromBigInt numer denom decimals = Inr s"
proof (cases denom)
  case None
  then show ?thesis by (simp add: percentFromBigInt_def)
next
  case (Some d)
  show ?thesis
  proof (cases numer)
    case None
    then show ?thesis using Some by (simp add: percentFromBigInt_def)
  next
    case (Some n)
    obtain s where "divBigIntToDecimalString (n * 100) d decimals = Inr s"
      using divBigInt_Inr by blast
    then show ?thesis using Some \<open>denom = Some d\<close>
      by (simp add: percentFromBigInt_def bind_err_def)
  qed
qed

section \<open>Extraction of an epoch metric\<close>

lemma extractEpoch_valid:
  assumes "checkpoints node = Some r # cks"
    and "computationCost r = Some c" "storageCost r = Some st" "storageRebate r = Some rb"
    and "totalTransactions node = Num (of_int n)" "0 < n"
  shows "\<exists>m. extractEpoch node = Inr (Some m) \<and>
     m_txCount m = Num (of_int n) \<and>
     m_totalGasFee m = c + st - rb \<and>
     m_comp m = c \<and>
     m_avgTotalPerTx m = (c + st - rb) sdiv n \<and>
     m_avgCompPerTx m = c sdiv n"
proof -
  obtain s1 where s1:
    "(if 0 < c + st - rb then percentFromBigInt (Some c) (Some (c + st - rb)) 2 else Inr ''N/A'')
       = Inr s1"
    using percent_Inr [of "Some c" "Some (c + st - rb)" 2] by (cases "0 < c + st - rb") auto
  obtain s2 where s2:
    "(case totalStakeRewards node of None \<Rightarrow> Inr ''N/A''
      | Some sr \<Rightarrow> if sr \<noteq> 0 \<and> 0 < sr
                 then percentFromBigInt (Some (c + st - rb)) (Some sr) 2 else Inr ''N/A'')
       = Inr s2"
  proof (cases "totalStakeRewards node")
    case None
    then show ?thesis using that by simp
  next
    case (Some sr)
    then show ?thesis
      using that percent_Inr [of "Some (c + st - rb)" "Some sr" 2] by (cases "0 < sr") auto
  qed
  show ?thesis
    using assms s1 s2
    by (simp add: extractEpoch_def nullish_def js_Num_simps BigInt_of_Number_def bind_err_def
        BigInt_div_def Let_def)
qed


section \<open>Digits written and read back\<close>

lemma of_char_digit_char: "d < 10 \<Longrightarrow> (of_char (digit_char d) :: nat) = 48 + d"
  by (simp add: digit_char_def)

lemma is_digit_digit_char: "d < 10 \<Longrightarrow> is_digit (digit_char d)"
  by (simp add: is_digit_def of_char_digit_char)

lemma digit_val_digit_char: "d < 10 \<Longrightarrow> digit_val (digit_char d) = d"
  by (simp add: digit_val_def of_char_digit_char)

lemma decimal_nat_snoc: "decimal_nat (s @ [c]) = 10 * decimal_nat s + digit_val c"
  by (simp add: decimal_nat_def)

lemma showNat_digits: "list_all is_digit (showNat n)"
proof (induction n rule: showNat.induct)
  case (1 n)
  show ?case
  proof (cases "n < 10")
    case True
    then show ?thesis by (subst showNat.simps) (simp add: is_digit_digit_char)
  next
    case False
    then show ?thesis
      using 1 by (subst showNat.simps) (simp add: is_digit_digit_char)
  qed
qed

lemma showNat_not_Nil: "showNat n \<noteq> []"
  by (subst showNat.simps) simp

lemma decimal_nat_showNat: "decimal_nat (showNat n) = n"
proof (induction n rule: showNat.induct)
  case (1 n)
  show ?case
  proof (cases "n < 10")
    case True
    then show ?thesis
      by (subst showNat.simps) (simp add: decimal_nat_def digit_val_digit_char)
  next
    case False
    then have "decimal_nat (showNat (n div 10)) = n div 10" using 1 by simp
    then show ?thesis
      using False
      by (subst showNat.simps) (simp add: decimal_nat_snoc digit_val_digit_char)
  qed
qed

lemma length_showNat: "0 < k \<Longrightarrow> n < 10 ^ k \<Longrightarrow> length (showNat n) \<le> k"
proof (induction n arbitrary: k rule: showNat.induct)
  case (1 n)
  show ?case
  proof (cases "n < 10")
    case True
    then show ?thesis using 1(2) by (subst showNat.simps) simp
  next
    case False
    obtain j where kj: "k = Suc j" using 1(2) by (cases k) auto
    have "j \<noteq> 0"
    proof
      assume "j = 0"
      then have "n < 10" using 1(3) kj by simp
      then show False using False by simp
    qed
    then have k: "k = Suc j" "0 < j" using kj by simp_all
    have "n div 10 < 10 ^ j" using 1(3) k by (simp add: less_mult_imp_div_less mult.commute)
    then have "length (showNat (n div 10)) \<le> j" using 1(1) [OF False k(2)] by simp
    then show ?thesis using False k by (subst showNat.simps) simp
  qed
qed

lemma decimal_nat_zeros: "decimal_nat (replicate j (CHR ''0'') @ s) = decimal_nat s"
proof -
  have dv0: "digit_val (CHR ''0'') = 0" by (simp add: digit_val_def)
  have z: "foldl (\<lambda>a c. 10 * a + digit_val c) 0 (replicate j (CHR ''0'')) = 0"
    by (induction j) (simp_all add: dv0)
  show ?thesis by (simp add: decimal_nat_def z)
qed


section \<open>Every returned metric comes from a valid record\<close>

lemma bind_err_Inr_iff: "(bind_err x f = Inr y) = (\<exists>v. x = Inr v \<and> f v = Inr y)"
  by (cases x) (simp_all add: bind_err_def)

lemma BigInt_div_Inr_iff: "(BigInt_div a b = Inr q) = (b \<noteq> 0 \<and> q = a sdiv b)"
  by (auto simp: BigInt_div_def)

lemma BigInt_of_Number_Inr_iff: "(BigInt_of_Number v = Inr n) = (v = Num (of_int n))"
  by (cases v) (auto simp: BigInt_of_Number_def)

lemma txCount_positive:
  assumes "\<not> (\<not> Number_isFinite v \<or> js_le v (Num 0))" "v = Num (of_int n)"
  shows "0 < n"
  using assms by (simp add: js_Num_simps)

lemma extractEpoch_SomeD:
  assumes "extractEpoch node = Inr (Some m)"
  shows "\<exists>r cks c st rb n. checkpoints node = Some r # cks \<and>
     computationCost r = Some c \<and> storageCost r = Some st \<and> storageRebate r = Some rb \<and>
     ToNumber (nullish (totalTransactions node) (Num 0)) = Num (of_int n) \<and> 0 < n \<and>
     m_totalGasFee m = c + st - rb \<and> m_comp m = c \<and>
     m_avgTotalPerTx m = (c + st - rb) sdiv n \<and> m_avgCompPerTx m = c sdiv n"
proof -
  obtain r cks where ck: "checkpoints node = Some r # cks"
    using assms by (auto simp: extractEpoch_def split: list.splits option.splits)
  obtain c st rb where f: "computationCost r = Some c" "storageCost r = Some st"
      "storageRebate r = Some rb"
    using assms ck by (auto simp: extractEpoch_def Let_def split: option.splits)
  define tx where "tx = ToNumber (nullish (totalTransactions node) (Num 0))"
  have ok: "\<not> (\<not> Number_isFinite tx \<or> js_le tx (Num 0))"
    using assms ck f by (auto simp: extractEpoch_def Let_def tx_def split: if_splits)
  have body: "bind_err (BigInt_of_Number tx) (\<lambda>n1.
       bind_err (BigInt_div (c + st - rb) n1) (\<lambda>avgTotalPerTx.
       bind_err (BigInt_of_Number tx) (\<lambda>n2.
       bind_err (BigInt_div c n2) (\<lambda>avgCompPerTx.
       bind_err
         (if 0 < c + st - rb
          then percentFromBigInt (Some c) (Some (c + st - rb)) 2
          else Inr ''N/A'') (\<lambda>compSharePct.
       bind_err
         (case totalStakeRewards node of
            None \<Rightarrow> Inr ''N/A''
          | Some sr \<Rightarrow>
              if sr \<noteq> 0 \<and> 0 < sr
              then percentFromBigInt (Some (c + st - rb)) (Some sr) 2
              else Inr ''N/A'') (\<lambda>gasOverRewardsPct.
         Inr (Some \<lparr>
           m_epochId = epochId node,
           m_startDate = startDate node,
           m_endDate = endDate node,
           m_txCount = tx,
           m_totalGasFee = c + st - rb,
           m_comp = c,
           m_avgTotalPerTx = avgTotalPerTx,
           m_avgCompPerTx = avgCompPerTx,
           m_compSharePct = compSharePct,
           m_gasOverRewardsPct = gasOverRewardsPct \<rparr>))))))) = Inr (Some m)"
    using assms ck f ok by (simp add: extractEpoch_def Let_def tx_def)
  then obtain n where n: "tx = Num (of_int n)"
    and m: "m_totalGasFee m = c + st - rb" "m_comp m = c"
      "m_avgTotalPerTx m = (c + st - rb) sdiv n" "m_avgCompPerTx m = c sdiv n"
    by (auto simp: bind_err_Inr_iff BigInt_div_Inr_iff BigInt_of_Number_Inr_iff)
  have "0 < n" using txCount_positive [OF ok n] .
  then show ?thesis using ck f n m by (auto simp: tx_def)
qed



lemma rebate_heavy_extract:
  "\<exists>m. extractEpoch rebate_heavy_node = Inr (Some m) \<and>
     m_totalGasFee m = - 2000001 \<and> m_avgTotalPerTx m = - 1000000 \<and>
     m_avgCompPerTx m = 500000"
  using extractEpoch_valid
    [of rebate_heavy_node rebate_heavy_summary "[]" 1000000 2000000 5000001 2]
  by (auto simp: rebate_heavy_node_def rebate_heavy_summary_def signed_divide_int_def)

text \<open>
  C7, as stated, fails on the division: BigInt division truncates towards zero. For the
  epoch with costs \<open>1000000 + 2000000\<close>, rebate \<open>5000001\<close> and two transactions the
  total is \<open>-2000001\<close> and the average is \<open>-1000000\<close>, not the floor \<open>-1000001\<close>.
\<close>

theorem extractEpoch_truncation_counterexample:
  "case extractEpoch rebate_heavy_node of
     Inr (Some m) \<Rightarrow>
       m_totalGasFee m = - 2000001 \<and> m_avgTotalPerTx m = - 1000000 \<and>
       m_avgTotalPerTx m \<noteq> m_totalGasFee m div 2
   | _ \<Rightarrow> False"
  using rebate_heavy_extract by auto

text \<open>
  C7, amended. For a record whose three cost fields parse as integers and whose
  transaction count is a positive integer \<open>n\<close>, \<^verbatim>\<open>extractEpoch\<close> returns a metric with
  \<open>totalGasFee = computation + storage - rebate\<close> exactly, and the two averages are the
  quotients by \<open>n\<close> truncated towards zero; they are the floor quotients whenever the
  dividend is not negative.
\<close>

theorem extractEpoch_derived_fields:
  assumes "checkpoints node = Some r # cks"
    and "computationCost r = Some c" "storageCost r = Some st" "storageRebate r = Some rb"
    and "totalTransactions node = Num (of_int n)" "0 < n"
  shows "\<exists>m. extractEpoch node = Inr (Some m) \<and>
     m_totalGasFee m = c + st - rb \<and>
     m_avgTotalPerTx m = sgn (c + st - rb) * (\<bar>c + st - rb\<bar> div n) \<and>
     m_avgCompPerTx m = sgn c * (\<bar>c\<bar> div n) \<and>
     (0 \<le> c + st - rb \<longrightarrow> m_avgTotalPerTx m = (c + st - rb) div n) \<and>
     (0 \<le> c \<longrightarrow> m_avgCompPerTx m = c div n)"
proof -
  obtain m where m: "extractEpoch node = Inr (Some m)" "m_totalGasFee m = c + st - rb"
    "m_avgTotalPerTx m = (c + st - rb) sdiv n" "m_avgCompPerTx m = c sdiv n"
    using extractEpoch_valid [OF assms] by blast
  have "(c + st - rb) sdiv n = sgn (c + st - rb) * (\<bar>c + st - rb\<bar> div n)"
    "c sdiv n = sgn c * (\<bar>c\<bar> div n)"
    using assms(6) by (simp_all add: signed_divide_int_def)
  then show ?thesis using m assms(6) by (auto simp: sdiv_nonneg)
qed

theorem extractEpoch_derived_fields_witness:
  "\<exists>m. extractEpoch ordinary_node = Inr (Some m) \<and>
     m_totalGasFee m = 2499999 \<and> m_avgTotalPerTx m = 1249999 \<and> m_avgCompPerTx m = 500000"
  using extractEpoch_derived_fields
    [of ordinary_node ordinary_summary "[]" 1000000 2000000 500001 2]
  by (auto simp: ordinary_node_def rebate_heavy_node_def ordinary_summary_def)

text \<open>
  C8, as stated, fails: the code accepts a rebate above the costs. For the same epoch
  the metric is returned with a negative total and a negative average.
\<close>

theorem extractEpoch_nonnegative_counterexample:
  "case extractEpoch rebate_heavy_node of
     Inr (Some m) \<Rightarrow> m_totalGasFee m < 0 \<and> m_avgTotalPerTx m < 0
   | _ \<Rightarrow> False"
  using rebate_heavy_extract by auto

text \<open>
  C8, amended. For every metric that \<^verbatim>\<open>extractEpoch\<close> returns: when the rebate does not
  exceed computation plus storage, the total gas fee and the average total cost per
  transaction are not negative; when the computation cost is not negative, neither is
  the average computation cost per transaction.
\<close>

theorem extractEpoch_nonnegative:
  assumes "extractEpoch node = Inr (Some m)"
    and "checkpoints node = Some r # cks"
    and "computationCost r = Some c" "storageCost r = Some st" "storageRebate r = Some rb"
  shows "(rb \<le> c + st \<longrightarrow> 0 \<le> m_totalGasFee m \<and> 0 \<le> m_avgTotalPerTx m) \<and>
         (0 \<le> c \<longrightarrow> 0 \<le> m_avgCompPerTx m)"
proof -
  obtain n where n: "0 < n" "m_totalGasFee m = c + st - rb"
    "m_avgTotalPerTx m = (c + st - rb) sdiv n" "m_avgCompPerTx m = c sdiv n"
    using extractEpoch_SomeD [OF assms(1)] assms(2-5) by auto
  then show ?thesis by (auto simp: sdiv_nonneg_ge0)
qed

theorem extractEpoch_nonnegative_witness:
  "\<exists>m. extractEpoch ordinary_node = Inr (Some m) \<and>
     0 \<le> m_totalGasFee m \<and> 0 \<le> m_avgTotalPerTx m \<and> 0 \<le> m_avgCompPerTx m"
proof -
  obtain m where m: "extractEpoch ordinary_node = Inr (Some m)"
    using extractEpoch_valid [of ordinary_node ordinary_summary "[]" 1000000 2000000 500001 2]
    by (auto simp: ordinary_node_def rebate_heavy_node_def ordinary_summary_def)
  show ?thesis
    using m extractEpoch_nonnegative [OF m, of ordinary_summary "[]" 1000000 2000000 500001]
    by (simp add: ordinary_node_def rebate_heavy_node_def ordinary_summary_def)
qed


section \<open>No usable epoch\<close>

lemma map_filter_all_None: "(\<forall>x\<in>set xs. x = None) \<Longrightarrow> List.map_filter (\<lambda>x. x) xs = []"
  by (induction xs) (simp_all add: List.map_filter_simps)

lemma map_filter_Nil_iff:
  "(List.map_filter (\<lambda>x. x) xs = []) = (\<forall>x\<in>set xs. x = None)"
  by (induction xs) (auto simp: List.map_filter_simps split: option.splits)

lemma map_filter_Some: "List.map_filter (\<lambda>x. x) (map Some xs) = xs"
  by (induction xs) (simp_all add: List.map_filter_simps)

lemma summarize_empty:
  "(\<forall>x\<in>set rows. x = None) \<Longrightarrow> summarize rows = Inr ([], None)"
  by (simp add: summarize_def map_filter_all_None)

lemma summarize_None_only_empty:
  assumes "summarize rows = Inr (r, None)"
  shows "\<forall>x\<in>set rows. x = None"
proof (rule ccontr)
  assume "\<not> (\<forall>x\<in>set rows. x = None)"
  then have ne: "List.map_filter (\<lambda>x. x) rows \<noteq> []" by (simp add: map_filter_Nil_iff)
  show False
    using assms ne
    by (auto simp: summarize_def Let_def bind_err_Inr_iff)
qed

lemma extractAll_Inr:
  "extractAll ns = Inr ms \<Longrightarrow> list_all2 (\<lambda>n m. extractEpoch n = Inr m) ns ms"
  by (induction ns arbitrary: ms) (auto simp: bind_err_Inr_iff)

lemma extractAll_all_skipped:
  "(\<forall>n\<in>set ns. extractEpoch n = Inr None) \<Longrightarrow>
   extractAll ns = Inr (replicate (length ns) None)"
  by (induction ns) (simp_all add: bind_err_def)

lemma collectMetrics_no_usable:
  assumes "\<forall>n\<in>set ns. extractEpoch n = Inr None"
  shows "collectMetrics (Some ns) = Inl NoUsableEpochs"
  using extractAll_all_skipped [OF assms]
  by (simp add: collectMetrics_def bind_err_def map_filter_all_None)

lemma collectMetrics_Inr:
  assumes "collectMetrics nodes = Inr p"
  shows "perEpoch p \<noteq> [] \<and>
    (\<exists>ns. nodes = Some ns \<and> (\<forall>m\<in>set (perEpoch p). \<exists>n\<in>set ns. extractEpoch n = Inr (Some m)))"
proof -
  obtain ns where ns: "nodes = Some ns"
    using assms by (cases nodes) (simp_all add: collectMetrics_def)
  obtain ms where ms: "extractAll ns = Inr ms"
    using assms ns by (auto simp: collectMetrics_def bind_err_Inr_iff)
  have ne: "List.map_filter (\<lambda>x. x) ms \<noteq> []" and pe: "perEpoch p = List.map_filter (\<lambda>x. x) ms"
    using assms ns ms
    by (auto simp: collectMetrics_def bind_err_Inr_iff Let_def split: if_splits option.splits)
  have "\<exists>n\<in>set ns. extractEpoch n = Inr (Some m)" if "m \<in> set (perEpoch p)" for m
  proof -
    have "Some m \<in> set ms" using that pe by (auto simp: List.map_filter_def)
    then obtain i where i: "i < length ms" "ms ! i = Some m"
      by (auto simp: in_set_conv_nth)
    have "length ns = length ms" "extractEpoch (ns ! i) = Inr (ms ! i)"
      using extractAll_Inr [OF ms] i by (auto simp: list_all2_conv_all_nth)
    then have "ns ! i \<in> set ns" "extractEpoch (ns ! i) = Inr (Some m)"
      using i by simp_all
    then show ?thesis by blast
  qed
  then show ?thesis using ne pe ns by auto
qed

text \<open>
  C9: when no row is valid, \<^verbatim>\<open>summarize\<close> returns an empty row list and a \<^verbatim>\<open>null\<close>
  overall summary, and it returns a \<^verbatim>\<open>null\<close> overall summary in no other case; when every
  record is skipped by \<^verbatim>\<open>extractEpoch\<close>, \<^verbatim>\<open>collectMetrics\<close> fails with the error
  "no usable epochs", and a payload it returns always holds at least one epoch, each
  extracted from a record of the response.
\<close>

theorem no_valid_epochs_fatal:
  "((\<forall>x\<in>set rows. x = None) \<longrightarrow> summarize rows = Inr ([], None))
   \<and> (summarize rows = Inr (r, None) \<longrightarrow> (\<forall>x\<in>set rows. x = None))
   \<and> ((\<forall>n\<in>set ns. extractEpoch n = Inr None) \<longrightarrow>
        collectMetrics (Some ns) = Inl NoUsableEpochs)
   \<and> (collectMetrics nodes = Inr p \<longrightarrow>
        perEpoch p \<noteq> [] \<and>
        (\<exists>ns'. nodes = Some ns' \<and>
           (\<forall>m\<in>set (perEpoch p). \<exists>n\<in>set ns'. extractEpoch n = Inr (Some m))))"
  using summarize_empty summarize_None_only_empty collectMetrics_no_usable collectMetrics_Inr
  by blast

text \<open>A record without checkpoints and a record with no transactions are skipped.\<close>

lemma extractEpoch_empty_node: "extractEpoch empty_node = Inr None"
  by (simp add: extractEpoch_def empty_node_def)

lemma extractEpoch_zero_tx:
  "extractEpoch (ordinary_node\<lparr>totalTransactions := Num 0\<rparr>) = Inr None"
  by (simp add: extractEpoch_def ordinary_node_def rebate_heavy_node_def ordinary_summary_def
      nullish_def js_Num_simps)

theorem no_valid_epochs_fatal_witness:
  "summarize [None, None] = Inr ([], None)
   \<and> collectMetrics (Some [empty_node, ordinary_node\<lparr>totalTransactions := Num 0\<rparr>]) =
       Inl NoUsableEpochs"
  using no_valid_epochs_fatal
    [of "[None, None]" "[]" "[empty_node, ordinary_node\<lparr>totalTransactions := Num 0\<rparr>]"
      None]
  by (simp add: extractEpoch_empty_node extractEpoch_zero_tx)


section \<open>The decimal string of a quotient\<close>

lemma is_digit_zero: "is_digit (CHR ''0'')"
  by (simp add: is_digit_def)

lemma padStart_digits:
  "list_all is_digit s \<Longrightarrow> list_all is_digit (padStart k (CHR ''0'') s)"
  by (auto simp: padStart_def is_digit_zero list_all_iff)

lemma length_padStart: "length (padStart k c s) = max k (length s)"
  by (simp add: padStart_def)

lemma decimal_nat_padStart: "decimal_nat (padStart k (CHR ''0'') s) = decimal_nat s"
  by (simp add: padStart_def decimal_nat_zeros)

lemma length_showNat_one: "n < 10 \<Longrightarrow> length (showNat n) = 1"
  by (subst showNat.simps) simp

lemma length_frac:
  assumes "n < 10 ^ k"
  shows "max k (length (showNat n)) = max k 1"
proof (cases "k = 0")
  case True
  then have "n < 10" using assms by simp
  then show ?thesis using True by (simp add: length_showNat_one)
next
  case False
  then have "length (showNat n) \<le> k" using assms by (simp add: length_showNat)
  moreover have "1 \<le> k" using False by simp
  ultimately show ?thesis by simp
qed

lemma divBigInt_shape:
  assumes "denom \<noteq> 0"
  shows "\<exists>ip fp. divBigIntToDecimalString numer denom decimals =
          Inr ((if (numer < 0) \<noteq> (denom < 0) then ''-'' else []) @ ip @ ''.'' @ fp) \<and>
        ip \<noteq> [] \<and> list_all is_digit ip \<and> list_all is_digit fp \<and>
        length fp = max decimals 1 \<and>
        int (decimal_nat ip) * 10 ^ decimals + int (decimal_nat fp) =
          \<bar>numer\<bar> * 10 ^ decimals div \<bar>denom\<bar>"
proof -
  define q where "q = \<bar>numer\<bar> * 10 ^ decimals div \<bar>denom\<bar>"
  define ip where "ip = showNat (nat (q div 10 ^ decimals))"
  define fp where "fp = padStart decimals (CHR ''0'') (showNat (nat (q mod 10 ^ decimals)))"
  have q0: "0 \<le> q" using assms by (simp add: q_def pos_imp_zdiv_nonneg_iff)
  have i0: "0 \<le> q div 10 ^ decimals" using q0 by (simp add: pos_imp_zdiv_nonneg_iff)
  have f0: "0 \<le> q mod 10 ^ decimals" by simp
  have flt: "nat (q mod 10 ^ decimals) < 10 ^ decimals"
  proof -
    have "q mod 10 ^ decimals < 10 ^ decimals" by simp
    then show ?thesis using f0 by (simp add: nat_less_iff)
  qed
  have eq: "divBigIntToDecimalString numer denom decimals =
          Inr ((if (numer < 0) \<noteq> (denom < 0) then ''-'' else []) @ ip @ ''.'' @ fp)"
    using divBigInt_unfold [OF assms] by (simp add: ip_def fp_def q_def)
  have "int (decimal_nat ip) = q div 10 ^ decimals"
    using i0 by (simp add: ip_def decimal_nat_showNat)
  moreover have "int (decimal_nat fp) = q mod 10 ^ decimals"
    by (simp add: fp_def decimal_nat_padStart decimal_nat_showNat)
  ultimately have val: "int (decimal_nat ip) * 10 ^ decimals + int (decimal_nat fp) = q"
    by (simp add: div_mult_mod_eq)
  have "length fp = max decimals 1"
    using length_frac [OF flt] by (simp add: fp_def length_padStart)
  moreover have "ip \<noteq> []" by (simp add: ip_def showNat_not_Nil)
  moreover have "list_all is_digit ip" by (simp add: ip_def showNat_digits)
  moreover have "list_all is_digit fp" by (simp add: fp_def padStart_digits showNat_digits)
  ultimately show ?thesis using eq val unfolding q_def by blast
qed

lemma divBigInt_zero_denom: "divBigIntToDecimalString numer 0 decimals = Inr ''NaN''"
  by (simp add: divBigIntToDecimalString_def)

lemma percent_NA:
  "percentFromBigInt numer None decimals = Inr ''N/A''"
  "percentFromBigInt numer (Some 0) decimals = Inr ''N/A''"
  by (simp_all add: percentFromBigInt_def)

text \<open>
  C10. \<^verbatim>\<open>divBigIntToDecimalString\<close> and \<^verbatim>\<open>percentFromBigInt\<close> never throw, whatever their
  arguments. A zero denominator gives \<^verbatim>\<open>'NaN'\<close>, and a \<^verbatim>\<open>null\<close> or zero denominator of a
  percentage gives \<^verbatim>\<open>'N/A'\<close>. With a non-zero denominator and at least one requested
  digit the string is a minus sign exactly when the quotient is negative, a non-empty
  integer part, a point and \<open>decimals\<close> fractional digits, and as a numeral it denotes
  \<open>\<bar>numer\<bar> / \<bar>denom\<bar>\<close> truncated to \<open>decimals\<close> digits. This shape is stated for the
  arguments the function is called with in \<^verbatim>\<open>src/metrics.js\<close> and more: every numerator,
  every positive denominator (the callers pass \<^verbatim>\<open>MIST_PER_SUI\<close> or a value they have
  checked to be \<^verbatim>\<open>> 0n\<close>), every negative denominator under a non-zero numerator, and every
  \<open>decimals \<ge> 1\<close> (the callers pass 2, 6 or 9).
\<close>

theorem divBigIntToDecimalString_total:
  "(\<exists>s. divBigIntToDecimalString numer denom decimals = Inr s)
   \<and> (\<exists>s. percentFromBigInt pn pd decimals = Inr s)
   \<and> divBigIntToDecimalString numer 0 decimals = Inr ''NaN''
   \<and> percentFromBigInt pn None decimals = Inr ''N/A''
   \<and> percentFromBigInt pn (Some 0) decimals = Inr ''N/A''
   \<and> (denom \<noteq> 0 \<and> (numer \<noteq> 0 \<or> 0 < denom) \<and> 0 < decimals \<longrightarrow>
       (\<exists>ip fp. divBigIntToDecimalString numer denom decimals =
          Inr ((if (of_int numer :: rat) / of_int denom < 0 then ''-'' else []) @
               ip @ ''.'' @ fp) \<and>
        ip \<noteq> [] \<and> list_all is_digit ip \<and> list_all is_digit fp \<and>
        length fp = decimals \<and>
        int (decimal_nat ip) * 10 ^ decimals + int (decimal_nat fp) =
          \<bar>numer\<bar> * 10 ^ decimals div \<bar>denom\<bar>))"
proof -
  have shape: "\<exists>ip fp. divBigIntToDecimalString numer denom decimals =
          Inr ((if (of_int numer :: rat) / of_int denom < 0 then ''-'' else []) @
               ip @ ''.'' @ fp) \<and>
        ip \<noteq> [] \<and> list_all is_digit ip \<and> list_all is_digit fp \<and>
        length fp = decimals \<and>
        int (decimal_nat ip) * 10 ^ decimals + int (decimal_nat fp) =
          \<bar>numer\<bar> * 10 ^ decimals div \<bar>denom\<bar>"
    if h: "denom \<noteq> 0" "numer \<noteq> 0 \<or> 0 < denom" "0 < decimals"
  proof -
    have sign: "((numer < 0) \<noteq> (denom < 0)) = ((of_int numer :: rat) / of_int denom < 0)"
      using h(1,2) by (auto simp: divide_less_0_iff)
    obtain ip fp where s: "divBigIntToDecimalString numer denom decimals =
          Inr ((if (numer < 0) \<noteq> (denom < 0) then ''-'' else []) @ ip @ ''.'' @ fp)"
      and r: "ip \<noteq> []" "list_all is_digit ip" "list_all is_digit fp"
        "length fp = max decimals 1"
        "int (decimal_nat ip) * 10 ^ decimals + int (decimal_nat fp) =
           \<bar>numer\<bar> * 10 ^ decimals div \<bar>denom\<bar>"
      using divBigInt_shape [OF h(1), of numer decimals] by blast
    have s': "divBigIntToDecimalString numer denom decimals =
          Inr ((if (of_int numer :: rat) / of_int denom < 0 then ''-'' else []) @
               ip @ ''.'' @ fp)"
      using s unfolding sign .
    have l: "length fp = decimals" using r(4) h(3) by simp
    show ?thesis using s' r(1-3) l r(5) by blast
  qed
  show ?thesis
    using divBigInt_Inr [of numer denom decimals] percent_Inr [of pn pd decimals]
      divBigInt_zero_denom [of numer decimals] percent_NA [of pn decimals] shape
    by blast
qed

text \<open>
  A negative numerator over \<^verbatim>\<open>MIST_PER_SUI\<close>-like positive denominators: \<open>-1 / 3\<close> to two
  digits, and the two fixed strings.
\<close>

theorem divBigIntToDecimalString_total_witness:
  "divBigIntToDecimalString (- 1) 3 2 = Inr ''-0.33''
   \<and> (\<exists>ip fp. ''-0.33'' = ''-'' @ ip @ ''.'' @ fp \<and> length fp = 2 \<and>
         int (decimal_nat ip) * 100 + int (decimal_nat fp) = 33)
   \<and> ((- 1 :: rat) / 3 < 0)
   \<and> divBigIntToDecimalString 7 0 2 = Inr ''NaN''
   \<and> percentFromBigInt (Some 7) (Some 0) 2 = Inr ''N/A''"
proof -
  have e: "divBigIntToDecimalString (- 1) 3 2 = Inr ''-0.33''" by code_simp
  obtain ip fp where
    "divBigIntToDecimalString (- 1) 3 2 = Inr (''-'' @ ip @ ''.'' @ fp)"
    "length fp = 2" "int (decimal_nat ip) * 100 + int (decimal_nat fp) = 33"
    using divBigIntToDecimalString_total [of "- 1" 3 2 "Some 7" "Some 0"]
    by (auto simp: numeral_2_eq_2)
  then have "\<exists>ip fp. ''-0.33'' = ''-'' @ ip @ ''.'' @ fp \<and> length fp = 2 \<and>
         int (decimal_nat ip) * 100 + int (decimal_nat fp) = 33"
    using e by (metis sum.inject(2))
  moreover have "divBigIntToDecimalString 7 0 2 = Inr ''NaN''"
    "percentFromBigInt (Some 7) (Some 0) 2 = Inr ''N/A''"
    using divBigIntToDecimalString_total [of 7 0 2 "Some 7" "Some 0"] by simp_all
  ultimately show ?thesis using e by simp
qed


text \<open>
  Outside that domain the minus sign follows the signs of the two arguments, not the
  sign of the quotient: a zero numerator over a negative denominator is written \<^verbatim>\<open>-0.00\<close>.
\<close>

lemma zero_over_negative: "divBigIntToDecimalString 0 (- 5) 2 = Inr ''-0.00''"
  by code_simp

section \<open>Further properties\<close>

text \<open>
  A record whose cost fields parse and whose transaction count is positive but not an
  integer is not skipped: \<^verbatim>\<open>BigInt(txCount)\<close> throws a RangeError.
\<close>

theorem extractEpoch_fractional_count_throws:
  assumes "checkpoints node = Some r # cks"
    and "computationCost r = Some c" "storageCost r = Some st" "storageRebate r = Some rb"
    and "totalTransactions node = Num q" "0 < q" "of_int \<lfloor>q\<rfloor> \<noteq> q"
  shows "extractEpoch node = Inl BigIntRangeError"
  using assms
  by (simp add: extractEpoch_def nullish_def js_Num_simps BigInt_of_Number_def bind_err_def
      Let_def)

theorem extractEpoch_fractional_count_throws_witness:
  "extractEpoch (ordinary_node\<lparr>totalTransactions := Num (5 / 2)\<rparr>) = Inl BigIntRangeError"
proof -
  have "of_int \<lfloor>5 / 2 :: rat\<rfloor> \<noteq> (5 / 2 :: rat)" by code_simp
  then show ?thesis
    using extractEpoch_fractional_count_throws
      [of "ordinary_node\<lparr>totalTransactions := Num (5 / 2)\<rparr>" ordinary_summary "[]"
        1000000 2000000 500001 "5 / 2"]
    by (simp add: ordinary_node_def rebate_heavy_node_def ordinary_summary_def)
qed

end
